theory Spec2Isabelle
  imports Main
begin

section \<open>Memory, element type and exceptions\<close>

text \<open>
  The header \<^verbatim>\<open>vector.h\<close> defines two class templates: \<^verbatim>\<open>RawMemory<T>\<close>, which owns a
  block of raw storage, and \<^verbatim>\<open>Vector<T>\<close>, which owns one \<^verbatim>\<open>RawMemory<T>\<close> and the
  number of constructed elements in it.

  The embedding keeps the pointer structure of the code. The free store is a list of
  blocks; the address of a block is its index in that list, a released block is \<open>None\<close>.
  A block is a list of slots; a slot is \<open>None\<close> when it is raw storage (no object, or a
  destroyed one) and \<open>Some x\<close> when it holds a constructed object of value \<open>x\<close>.
  A pointer \<^verbatim>\<open>T*\<close> is either null or a block address with a slot offset.

  Every operation that may throw returns \<open>Inl\<close> of the exception together with the state
  at the throw, so that the state after a failed call can be compared with the state
  before it.
\<close>

datatype error =
    BadAlloc        \<comment> \<open>\<^verbatim>\<open>std::bad_alloc\<close> thrown by \<^verbatim>\<open>operator new\<close>\<close>
  | ElemThrow       \<comment> \<open>an exception thrown by a constructor or assignment of \<^verbatim>\<open>T\<close>\<close>
  | AssertFail      \<comment> \<open>a failed \<^verbatim>\<open>assert\<close>\<close>
  | Terminate       \<comment> \<open>an exception leaving a \<^verbatim>\<open>noexcept\<close> function\<close>

datatype ptr = Null | Ptr nat nat

type_synonym 'a slot = "'a option"

text \<open>
  The state outside the vector objects: the free store, and the outcomes of the
  operations that may throw, in the order in which they will be attempted
  (\<open>True\<close>: this call throws). After the end of the list no call throws. The list
  stands for an allocator that may run out of memory and for an element type whose
  operations throw at arbitrary points.
\<close>

record 'a world =
  heap :: "'a slot list option list"
  faults :: "bool list"

text \<open>
  What the code asks of the template parameter \<^verbatim>\<open>T\<close>: its size, the two type traits
  tested by \<^verbatim>\<open>if constexpr\<close>, the value of a value-initialised object, and the value a
  moved-from object is left with.
\<close>

record 'a elem_type =
  sizeof_T :: nat
  is_nothrow_move_constructible :: bool
  is_copy_constructible :: bool
  value_init :: 'a
  moved_from :: "'a \<Rightarrow> 'a"

text \<open>\<^verbatim>\<open>size_t\<close> is 64 bits wide; its arithmetic is modulo \<open>2 ^ 64\<close>.\<close>

definition wrap :: "nat \<Rightarrow> nat" where
  "wrap n = n mod 2 ^ 64"

subsection \<open>Pointers\<close>

fun ptr_add :: "ptr \<Rightarrow> int \<Rightarrow> ptr" where
  "ptr_add Null d = Null"
| "ptr_add (Ptr a i) d = Ptr a (nat (int i + d))"

fun ptr_off :: "ptr \<Rightarrow> nat" where
  "ptr_off Null = 0"
| "ptr_off (Ptr a i) = i"

text \<open>\<^verbatim>\<open>std::distance(first, last)\<close> on pointers is \<^verbatim>\<open>last - first\<close>, a \<^verbatim>\<open>ptrdiff_t\<close>.\<close>

definition distance :: "ptr \<Rightarrow> ptr \<Rightarrow> int" where
  "distance first lst = int (ptr_off lst) - int (ptr_off first)"

text \<open>
  Reading and writing a slot through a pointer. An access through a null pointer, into a
  released block or past the end of a block is undefined behaviour in C++; here such a
  read yields an empty slot and such a write is dropped.
\<close>

definition block_len :: "'a world \<Rightarrow> nat \<Rightarrow> nat option" where
  "block_len w a = (if a < length (heap w) then map_option length (heap w ! a) else None)"

fun valid :: "'a world \<Rightarrow> ptr \<Rightarrow> bool" where
  "valid w Null = False"
| "valid w (Ptr a i) = (case block_len w a of None \<Rightarrow> False | Some n \<Rightarrow> i < n)"

fun load :: "'a world \<Rightarrow> ptr \<Rightarrow> 'a slot" where
  "load w Null = None"
| "load w (Ptr a i) =
     (if a < length (heap w)
      then (case heap w ! a of None \<Rightarrow> None
            | Some blk \<Rightarrow> if i < length blk then blk ! i else None)
      else None)"

fun store :: "ptr \<Rightarrow> 'a slot \<Rightarrow> 'a world \<Rightarrow> 'a world" where
  "store Null s w = w"
| "store (Ptr a i) s w =
     (if a < length (heap w)
      then (case heap w ! a of None \<Rightarrow> w
            | Some blk \<Rightarrow> w\<lparr>heap := (heap w)[a := Some (blk[i := s])]\<rparr>)
      else w)"

subsection \<open>Throwing operations\<close>

definition may_throw :: "'a world \<Rightarrow> bool \<times> 'a world" where
  "may_throw w = (case faults w of [] \<Rightarrow> (False, w) | b # bs \<Rightarrow> (b, w\<lparr>faults := bs\<rparr>))"

text \<open>
  \<^verbatim>\<open>operator new(bytes)\<close> either throws or returns the address of a fresh block, which has
  room for \<open>bytes div sizeof(T)\<close> objects. \<^verbatim>\<open>operator delete\<close> releases a block and does
  nothing on a null pointer.
\<close>

definition operator_new :: "'a elem_type \<Rightarrow> nat \<Rightarrow> 'a world \<Rightarrow> (error + ptr) \<times> 'a world" where
  "operator_new T bytes w =
     (case may_throw w of
        (True, w') \<Rightarrow> (Inl BadAlloc, w')
      | (False, w') \<Rightarrow>
          (Inr (Ptr (length (heap w')) 0),
           w'\<lparr>heap := heap w' @ [Some (replicate (bytes div sizeof_T T) None)]\<rparr>))"

fun operator_delete :: "ptr \<Rightarrow> 'a world \<Rightarrow> 'a world" where
  "operator_delete Null w = w"
| "operator_delete (Ptr a i) w = w\<lparr>heap := (heap w)[a := None]\<rparr>"

text \<open>
  The operations of \<^verbatim>\<open>T\<close>. Constructors and assignments may throw, destructors do not.
  A move constructor of a type with \<^verbatim>\<open>is_nothrow_move_constructible_v<T>\<close> never throws.
  Construction writes the slot whatever it held; so does assignment.
\<close>

definition construct_at :: "ptr \<Rightarrow> 'a \<Rightarrow> 'a world \<Rightarrow> (error + unit) \<times> 'a world" where
  \<comment> \<open>\<^verbatim>\<open>new (p) T(std::forward<Args>(args)...)\<close>, the arguments giving the value \<open>x\<close>\<close>
  "construct_at p x w =
     (case may_throw w of
        (True, w') \<Rightarrow> (Inl ElemThrow, w')
      | (False, w') \<Rightarrow> (Inr (), store p (Some x) w'))"

definition construct_temp :: "'a \<Rightarrow> 'a world \<Rightarrow> (error + 'a) \<times> 'a world" where
  \<comment> \<open>\<^verbatim>\<open>T temp(std::forward<Args>(args)...)\<close>, a local object\<close>
  "construct_temp x w =
     (case may_throw w of
        (True, w') \<Rightarrow> (Inl ElemThrow, w')
      | (False, w') \<Rightarrow> (Inr x, w'))"

definition value_construct_at :: "'a elem_type \<Rightarrow> ptr \<Rightarrow> 'a world \<Rightarrow> (error + unit) \<times> 'a world" where
  \<comment> \<open>\<^verbatim>\<open>new (p) T()\<close>\<close>
  "value_construct_at T p w =
     (case may_throw w of
        (True, w') \<Rightarrow> (Inl ElemThrow, w')
      | (False, w') \<Rightarrow> (Inr (), store p (Some (value_init T)) w'))"

definition copy_construct_at :: "ptr \<Rightarrow> ptr \<Rightarrow> 'a world \<Rightarrow> (error + unit) \<times> 'a world" where
  \<comment> \<open>\<^verbatim>\<open>new (p) T(*src)\<close>\<close>
  "copy_construct_at p src w =
     (case may_throw w of
        (True, w') \<Rightarrow> (Inl ElemThrow, w')
      | (False, w') \<Rightarrow> (Inr (), store p (load w' src) w'))"

definition move_construct_at ::
  "'a elem_type \<Rightarrow> ptr \<Rightarrow> ptr \<Rightarrow> 'a world \<Rightarrow> (error + unit) \<times> 'a world" where
  \<comment> \<open>\<^verbatim>\<open>new (p) T(std::move(*src))\<close>\<close>
  "move_construct_at T p src w =
     (case (if is_nothrow_move_constructible T then (False, w) else may_throw w) of
        (True, w') \<Rightarrow> (Inl ElemThrow, w')
      | (False, w') \<Rightarrow>
          (Inr (), store src (map_option (moved_from T) (load w' src)) (store p (load w' src) w')))"

text \<open>
  An assignment runs no constructor: on a slot that holds no object (raw memory, or an
  object already destroyed) it brings none to life. In C++ such an assignment is
  undefined behaviour; here it leaves the slot as it is.
\<close>

definition assign_slot :: "ptr \<Rightarrow> 'a slot \<Rightarrow> 'a world \<Rightarrow> 'a world" where
  "assign_slot p s w = (if load w p = None then w else store p s w)"

definition copy_assign_elem :: "ptr \<Rightarrow> ptr \<Rightarrow> 'a world \<Rightarrow> (error + unit) \<times> 'a world" where
  \<comment> \<open>\<^verbatim>\<open>*dst = *src\<close>\<close>
  "copy_assign_elem dst src w =
     (case may_throw w of
        (True, w') \<Rightarrow> (Inl ElemThrow, w')
      | (False, w') \<Rightarrow> (Inr (), assign_slot dst (load w' src) w'))"

definition move_assign_elem ::
  "'a elem_type \<Rightarrow> ptr \<Rightarrow> ptr \<Rightarrow> 'a world \<Rightarrow> (error + unit) \<times> 'a world" where
  \<comment> \<open>\<^verbatim>\<open>*dst = std::move(*src)\<close>\<close>
  "move_assign_elem T dst src w =
     (case may_throw w of
        (True, w') \<Rightarrow> (Inl ElemThrow, w')
      | (False, w') \<Rightarrow>
          (Inr (), store src (map_option (moved_from T) (load w' src))
                     (assign_slot dst (load w' src) w')))"

definition move_assign_temp :: "ptr \<Rightarrow> 'a \<Rightarrow> 'a world \<Rightarrow> (error + unit) \<times> 'a world" where
  \<comment> \<open>\<^verbatim>\<open>*dst = std::move(temp)\<close>\<close>
  "move_assign_temp dst x w =
     (case may_throw w of
        (True, w') \<Rightarrow> (Inl ElemThrow, w')
      | (False, w') \<Rightarrow> (Inr (), assign_slot dst (Some x) w'))"

definition destroy_at :: "ptr \<Rightarrow> 'a world \<Rightarrow> 'a world" where
  \<comment> \<open>\<^verbatim>\<open>p->~T()\<close>\<close>
  "destroy_at p w = store p None w"

subsection \<open>The algorithms of the standard library that the code calls\<close>

text \<open>
  Each takes the number of elements as a natural number; a call site that passes a
  \<^verbatim>\<open>ptrdiff_t\<close> converts it with \<open>nat\<close>, a negative count running no iteration.
  The \<^verbatim>\<open>uninitialized_\<close> algorithms destroy what they have constructed when a
  construction throws, and rethrow.
\<close>

fun destroy_n :: "ptr \<Rightarrow> nat \<Rightarrow> 'a world \<Rightarrow> 'a world" where
  "destroy_n p 0 w = w"
| "destroy_n p (Suc n) w = destroy_n (ptr_add p 1) n (destroy_at p w)"

fun uninitialized_copy_n :: "ptr \<Rightarrow> nat \<Rightarrow> ptr \<Rightarrow> 'a world \<Rightarrow> (error + unit) \<times> 'a world" where
  "uninitialized_copy_n first 0 d w = (Inr (), w)"
| "uninitialized_copy_n first (Suc n) d w =
     (case copy_construct_at d first w of
        (Inl e, w1) \<Rightarrow> (Inl e, w1)
      | (Inr u, w1) \<Rightarrow>
          (case uninitialized_copy_n (ptr_add first 1) n (ptr_add d 1) w1 of
             (Inl e, w2) \<Rightarrow> (Inl e, destroy_at d w2)
           | (Inr u, w2) \<Rightarrow> (Inr (), w2)))"

fun uninitialized_move_n ::
  "'a elem_type \<Rightarrow> ptr \<Rightarrow> nat \<Rightarrow> ptr \<Rightarrow> 'a world \<Rightarrow> (error + unit) \<times> 'a world" where
  "uninitialized_move_n T first 0 d w = (Inr (), w)"
| "uninitialized_move_n T first (Suc n) d w =
     (case move_construct_at T d first w of
        (Inl e, w1) \<Rightarrow> (Inl e, w1)
      | (Inr u, w1) \<Rightarrow>
          (case uninitialized_move_n T (ptr_add first 1) n (ptr_add d 1) w1 of
             (Inl e, w2) \<Rightarrow> (Inl e, destroy_at d w2)
           | (Inr u, w2) \<Rightarrow> (Inr (), w2)))"

fun uninitialized_value_construct_n ::
  "'a elem_type \<Rightarrow> ptr \<Rightarrow> nat \<Rightarrow> 'a world \<Rightarrow> (error + unit) \<times> 'a world" where
  "uninitialized_value_construct_n T p 0 w = (Inr (), w)"
| "uninitialized_value_construct_n T p (Suc n) w =
     (case value_construct_at T p w of
        (Inl e, w1) \<Rightarrow> (Inl e, w1)
      | (Inr u, w1) \<Rightarrow>
          (case uninitialized_value_construct_n T (ptr_add p 1) n w1 of
             (Inl e, w2) \<Rightarrow> (Inl e, destroy_at p w2)
           | (Inr u, w2) \<Rightarrow> (Inr (), w2)))"

text \<open>
  \<^verbatim>\<open>std::move(first, last, d_first)\<close> assigns front to back, \<^verbatim>\<open>std::move_backward(first,
  last, d_last)\<close> back to front; \<open>n\<close> is \<^verbatim>\<open>last - first\<close>.
\<close>

fun move_n ::
  "'a elem_type \<Rightarrow> ptr \<Rightarrow> nat \<Rightarrow> ptr \<Rightarrow> 'a world \<Rightarrow> (error + unit) \<times> 'a world" where
  "move_n T first 0 d w = (Inr (), w)"
| "move_n T first (Suc n) d w =
     (case move_assign_elem T d first w of
        (Inl e, w1) \<Rightarrow> (Inl e, w1)
      | (Inr u, w1) \<Rightarrow> move_n T (ptr_add first 1) n (ptr_add d 1) w1)"

definition std_move ::
  "'a elem_type \<Rightarrow> ptr \<Rightarrow> ptr \<Rightarrow> ptr \<Rightarrow> 'a world \<Rightarrow> (error + unit) \<times> 'a world" where
  "std_move T first lst d_first w = move_n T first (nat (distance first lst)) d_first w"

fun move_backward_n ::
  "'a elem_type \<Rightarrow> ptr \<Rightarrow> nat \<Rightarrow> ptr \<Rightarrow> 'a world \<Rightarrow> (error + unit) \<times> 'a world" where
  "move_backward_n T first 0 d_last w = (Inr (), w)"
| "move_backward_n T first (Suc n) d_last w =
     (case move_assign_elem T (ptr_add d_last (- 1)) (ptr_add first (int n)) w of
        (Inl e, w1) \<Rightarrow> (Inl e, w1)
      | (Inr u, w1) \<Rightarrow> move_backward_n T first n (ptr_add d_last (- 1)) w1)"

definition std_move_backward ::
  "'a elem_type \<Rightarrow> ptr \<Rightarrow> ptr \<Rightarrow> ptr \<Rightarrow> 'a world \<Rightarrow> (error + unit) \<times> 'a world" where
  "std_move_backward T first lst d_last w =
     move_backward_n T first (nat (distance first lst)) d_last w"

section \<open>RawMemory\<close>

text \<open>
  The members \<^verbatim>\<open>buffer_\<close> and \<^verbatim>\<open>capacity_\<close>, \<^verbatim>\<open>data_\<close> and \<^verbatim>\<open>size_\<close> are the fields
  \<open>buffer_m\<close> and \<open>capacity_m\<close>, \<open>data_m\<close> and \<open>size_m\<close>.
\<close>

record RawMemory =
  buffer_m :: ptr
  capacity_m :: nat

definition Allocate :: "'a elem_type \<Rightarrow> nat \<Rightarrow> 'a world \<Rightarrow> (error + ptr) \<times> 'a world" where
  "Allocate T n w =
     (if n \<noteq> 0 then operator_new T (wrap (n * sizeof_T T)) w else (Inr Null, w))"

definition Deallocate :: "ptr \<Rightarrow> 'a world \<Rightarrow> 'a world" where
  "Deallocate buf w = operator_delete buf w"

definition RawMemory_default :: RawMemory where
  "RawMemory_default = \<lparr>buffer_m = Null, capacity_m = 0\<rparr>"

definition RawMemory_ctor ::
  "'a elem_type \<Rightarrow> nat \<Rightarrow> 'a world \<Rightarrow> (error + RawMemory) \<times> 'a world" where
  "RawMemory_ctor T capacity w =
     (case Allocate T capacity w of
        (Inl e, w') \<Rightarrow> (Inl e, w')
      | (Inr p, w') \<Rightarrow> (Inr \<lparr>buffer_m = p, capacity_m = capacity\<rparr>, w'))"

definition RawMemory_dtor :: "RawMemory \<Rightarrow> 'a world \<Rightarrow> 'a world" where
  "RawMemory_dtor m w = Deallocate (buffer_m m) w"

definition RawMemory_index :: "RawMemory \<Rightarrow> nat \<Rightarrow> error + ptr" where
  \<comment> \<open>\<^verbatim>\<open>operator[]\<close>; the reference it returns is the address of the slot\<close>
  "RawMemory_index m index =
     (if index \<le> capacity_m m then Inr (ptr_add (buffer_m m) (int index)) else Inl AssertFail)"

definition RawMemory_Swap :: "RawMemory \<Rightarrow> RawMemory \<Rightarrow> RawMemory \<times> RawMemory" where
  "RawMemory_Swap m other =
     (m\<lparr>buffer_m := buffer_m other, capacity_m := capacity_m other\<rparr>,
      other\<lparr>buffer_m := buffer_m m, capacity_m := capacity_m m\<rparr>)"

definition GetAddress :: "RawMemory \<Rightarrow> ptr" where
  "GetAddress m = buffer_m m"

definition RawMemory_Capacity :: "RawMemory \<Rightarrow> nat" where
  "RawMemory_Capacity m = capacity_m m"

section \<open>Vector\<close>

record Vector =
  data_m :: RawMemory
  size_m :: nat

definition Size :: "Vector \<Rightarrow> nat" where
  "Size v = size_m v"

definition Capacity :: "Vector \<Rightarrow> nat" where
  "Capacity v = RawMemory_Capacity (data_m v)"

definition begin_it :: "Vector \<Rightarrow> error + ptr" where
  "begin_it v = (if Capacity v = 0 then Inr Null else RawMemory_index (data_m v) 0)"

definition end_it :: "Vector \<Rightarrow> error + ptr" where
  "end_it v = (if Capacity v = 0 then Inr Null else RawMemory_index (data_m v) (size_m v))"

definition cbegin :: "Vector \<Rightarrow> error + ptr" where
  "cbegin v = begin_it v"

definition cend :: "Vector \<Rightarrow> error + ptr" where
  "cend v = end_it v"

definition Vector_default :: Vector where
  "Vector_default = \<lparr>data_m = RawMemory_default, size_m = 0\<rparr>"

definition Vector_ctor :: "'a elem_type \<Rightarrow> nat \<Rightarrow> 'a world \<Rightarrow> (error + Vector) \<times> 'a world" where
  \<comment> \<open>\<^verbatim>\<open>explicit Vector(size_t size)\<close>; when the body throws, the member \<^verbatim>\<open>data_\<close> is destroyed\<close>
  "Vector_ctor T n w =
     (case RawMemory_ctor T n w of
        (Inl e, w1) \<Rightarrow> (Inl e, w1)
      | (Inr d, w1) \<Rightarrow>
          (case uninitialized_value_construct_n T (GetAddress d) n w1 of
             (Inl e, w2) \<Rightarrow> (Inl e, RawMemory_dtor d w2)
           | (Inr u, w2) \<Rightarrow> (Inr \<lparr>data_m = d, size_m = n\<rparr>, w2)))"

definition Vector_dtor :: "Vector \<Rightarrow> 'a world \<Rightarrow> 'a world" where
  "Vector_dtor v w = RawMemory_dtor (data_m v) (destroy_n (GetAddress (data_m v)) (size_m v) w)"

definition Vector_copy_ctor ::
  "'a elem_type \<Rightarrow> Vector \<Rightarrow> 'a world \<Rightarrow> (error + Vector) \<times> 'a world" where
  "Vector_copy_ctor T other w =
     (case RawMemory_ctor T (size_m other) w of
        (Inl e, w1) \<Rightarrow> (Inl e, w1)
      | (Inr d, w1) \<Rightarrow>
          (case uninitialized_copy_n (GetAddress (data_m other)) (Size other) (GetAddress d) w1 of
             (Inl e, w2) \<Rightarrow> (Inl e, RawMemory_dtor d w2)
           | (Inr u, w2) \<Rightarrow> (Inr \<lparr>data_m = d, size_m = size_m other\<rparr>, w2)))"

definition Vector_index :: "Vector \<Rightarrow> nat \<Rightarrow> error + ptr" where
  \<comment> \<open>\<^verbatim>\<open>operator[]\<close>\<close>
  "Vector_index v index =
     (if index < size_m v then RawMemory_index (data_m v) index else Inl AssertFail)"

definition Vector_Swap :: "Vector \<Rightarrow> Vector \<Rightarrow> Vector \<times> Vector" where
  "Vector_Swap v other =
     (case RawMemory_Swap (data_m v) (data_m other) of
        (d, od) \<Rightarrow> (v\<lparr>data_m := d, size_m := size_m other\<rparr>,
                    other\<lparr>data_m := od, size_m := size_m v\<rparr>))"

text \<open>
  The relocation that \<^verbatim>\<open>Reserve\<close> and \<^verbatim>\<open>EmplaceShared\<close> select with
  \<^verbatim>\<open>if constexpr (std::is_nothrow_move_constructible_v<T> || !std::is_copy_constructible_v<T>)\<close>.
\<close>

definition relocate_n ::
  "'a elem_type \<Rightarrow> ptr \<Rightarrow> nat \<Rightarrow> ptr \<Rightarrow> 'a world \<Rightarrow> (error + unit) \<times> 'a world" where
  "relocate_n T first n d w =
     (if is_nothrow_move_constructible T \<or> \<not> is_copy_constructible T
      then uninitialized_move_n T first n d w
      else uninitialized_copy_n first n d w)"

text \<open>
  A member function takes the object \<open>v\<close> it is called on and returns it as it is at the
  return or at the throw. A local \<^verbatim>\<open>RawMemory\<close> is destroyed when its scope is left, by
  a return or by an exception.
\<close>

definition Reserve ::
  "'a elem_type \<Rightarrow> nat \<Rightarrow> Vector \<Rightarrow> 'a world \<Rightarrow> (error + unit) \<times> Vector \<times> 'a world" where
  "Reserve T new_capacity v w =
     (if new_capacity \<le> RawMemory_Capacity (data_m v) then (Inr (), v, w)
      else
        (case RawMemory_ctor T new_capacity w of
           (Inl e, w1) \<Rightarrow> (Inl e, v, w1)
         | (Inr new_data, w1) \<Rightarrow>
             (case relocate_n T (GetAddress (data_m v)) (size_m v) (GetAddress new_data) w1 of
                (Inl e, w2) \<Rightarrow> (Inl e, v, RawMemory_dtor new_data w2)
              | (Inr u, w2) \<Rightarrow>
                  (case RawMemory_Swap (data_m v) new_data of
                     (d, nd) \<Rightarrow>
                       (Inr (), v\<lparr>data_m := d\<rparr>,
                        RawMemory_dtor nd
                          (destroy_n (GetAddress (data_m v)) (size_m v) w2))))))"

definition Resize ::
  "'a elem_type \<Rightarrow> nat \<Rightarrow> Vector \<Rightarrow> 'a world \<Rightarrow> (error + unit) \<times> Vector \<times> 'a world" where
  "Resize T new_size v w =
     (if new_size = size_m v then (Inr (), v, w)
      else if new_size < size_m v
      then (Inr (), v\<lparr>size_m := new_size\<rparr>,
            destroy_n (ptr_add (GetAddress (data_m v)) (int new_size)) (size_m v - new_size) w)
      else
        (case Reserve T new_size v w of
           (Inl e, v1, w1) \<Rightarrow> (Inl e, v1, w1)
         | (Inr u, v1, w1) \<Rightarrow>
             (case uninitialized_value_construct_n T
                     (ptr_add (GetAddress (data_m v1)) (int (size_m v1)))
                     (new_size - size_m v1) w1 of
                (Inl e, w2) \<Rightarrow> (Inl e, v1, w2)
              | (Inr u, w2) \<Rightarrow> (Inr (), v1\<lparr>size_m := new_size\<rparr>, w2))))"

text \<open>
  \<^verbatim>\<open>EmplaceShared\<close>, first branch, from the placement \<^verbatim>\<open>new\<close> to the end of the second
  \<^verbatim>\<open>try\<close> block: the new element is constructed in the new storage, then the elements
  before \<^verbatim>\<open>pos\<close> and the elements from \<^verbatim>\<open>pos\<close> on are relocated around it. The two
  handlers destroy what the new storage holds and rethrow.
\<close>

definition EmplaceShared_relocate ::
  "'a elem_type \<Rightarrow> ptr \<Rightarrow> 'a \<Rightarrow> Vector \<Rightarrow> RawMemory \<Rightarrow> 'a world \<Rightarrow> (error + ptr) \<times> 'a world" where
  "EmplaceShared_relocate T pos x v new_data w =
     (case cbegin v of
        Inl e \<Rightarrow> (Inl e, w)
      | Inr cb \<Rightarrow>
          (let idx = distance cb pos;
               result = ptr_add (GetAddress new_data) idx
           in case construct_at result x w of
                (Inl e, w1) \<Rightarrow> (Inl e, w1)
              | (Inr u, w1) \<Rightarrow>
                  (case relocate_n T cb (nat idx) (GetAddress new_data) w1 of
                     (Inl e, w2) \<Rightarrow> (Inl e, destroy_at result w2)
                   | (Inr u, w2) \<Rightarrow>
                       (case cend v of
                          Inl e \<Rightarrow> (Inl e, w2)
                        | Inr ce \<Rightarrow>
                            (case relocate_n T pos (nat (distance pos ce))
                                    (ptr_add (ptr_add (GetAddress new_data) idx) 1) w2 of
                               (Inl e, w3) \<Rightarrow>
                                 (Inl e, destroy_at result
                                           (destroy_n (GetAddress new_data) (nat idx) w3))
                             | (Inr u, w3) \<Rightarrow> (Inr result, w3))))))"

text \<open>
  Second branch, \<^verbatim>\<open>pos\<close> not the end: the block under \<^verbatim>\<open>if (size_ > 0)\<close>, which moves
  the last element into the free slot past the end and shifts \<^verbatim>\<open>[pos, end() - 1)\<close> one
  slot to the right.
\<close>

definition EmplaceShared_shift ::
  "'a elem_type \<Rightarrow> ptr \<Rightarrow> Vector \<Rightarrow> 'a world \<Rightarrow> (error + unit) \<times> 'a world" where
  "EmplaceShared_shift T result v w =
     (if size_m v > 0 then
        (case end_it v of
           Inl e \<Rightarrow> (Inl e, w)
         | Inr en \<Rightarrow>
             (case move_construct_at T en (ptr_add en (- 1)) w of
                (Inl e, w1) \<Rightarrow> (Inl e, w1)
              | (Inr u, w1) \<Rightarrow>
                  (if size_m v > 1
                   then std_move_backward T result (ptr_add en (- 1)) en w1
                   else (Inr (), w1))))
      else (Inr (), w))"

definition EmplaceShared_inplace ::
  "'a elem_type \<Rightarrow> ptr \<Rightarrow> 'a \<Rightarrow> Vector \<Rightarrow> 'a world \<Rightarrow> (error + ptr) \<times> 'a world" where
  "EmplaceShared_inplace T pos x v w =
     (case cend v of
        Inl e \<Rightarrow> (Inl e, w)
      | Inr ce \<Rightarrow>
          (if pos = ce then
             (let result = ptr_add (GetAddress (data_m v)) (int (size_m v))
              in case construct_at result x w of
                   (Inl e, w1) \<Rightarrow> (Inl e, w1)
                 | (Inr u, w1) \<Rightarrow> (Inr result, w1))
           else
             (let result = pos
              in case construct_temp x w of
                   (Inl e, w1) \<Rightarrow> (Inl e, w1)
                 | (Inr temp, w1) \<Rightarrow>
                     (case EmplaceShared_shift T result v w1 of
                        (Inl e, w2) \<Rightarrow> (Inl e, w2)
                      | (Inr u, w2) \<Rightarrow>
                          (case move_assign_temp result temp w2 of
                             (Inl e, w3) \<Rightarrow> (Inl e, w3)
                           | (Inr u, w3) \<Rightarrow> (Inr result, w3))))))"

definition EmplaceShared ::
  "'a elem_type \<Rightarrow> ptr \<Rightarrow> 'a \<Rightarrow> Vector \<Rightarrow> 'a world \<Rightarrow> (error + ptr) \<times> Vector \<times> 'a world" where
  "EmplaceShared T pos x v w =
     (if size_m v = Capacity v then
        (case RawMemory_ctor T (if size_m v = 0 then 1 else wrap (size_m v * 2)) w of
           (Inl e, w1) \<Rightarrow> (Inl e, v, w1)
         | (Inr new_data, w1) \<Rightarrow>
             (case EmplaceShared_relocate T pos x v new_data w1 of
                (Inl e, w2) \<Rightarrow> (Inl e, v, RawMemory_dtor new_data w2)
              | (Inr result, w2) \<Rightarrow>
                  (case begin_it v of
                     Inl e \<Rightarrow> (Inl e, v, w2)
                   | Inr b \<Rightarrow>
                       (case RawMemory_Swap (data_m v) new_data of
                          (d, nd) \<Rightarrow>
                            (Inr result, v\<lparr>data_m := d, size_m := wrap (size_m v + 1)\<rparr>,
                             RawMemory_dtor nd (destroy_n b (size_m v) w2))))))
      else
        (case EmplaceShared_inplace T pos x v w of
           (Inl e, w1) \<Rightarrow> (Inl e, v, w1)
         | (Inr result, w1) \<Rightarrow> (Inr result, v\<lparr>size_m := wrap (size_m v + 1)\<rparr>, w1)))"

definition Emplace ::
  "'a elem_type \<Rightarrow> ptr \<Rightarrow> 'a \<Rightarrow> Vector \<Rightarrow> 'a world \<Rightarrow> (error + ptr) \<times> Vector \<times> 'a world" where
  "Emplace T pos x v w = EmplaceShared T pos x v w"

definition Insert ::
  "'a elem_type \<Rightarrow> ptr \<Rightarrow> 'a \<Rightarrow> Vector \<Rightarrow> 'a world \<Rightarrow> (error + ptr) \<times> Vector \<times> 'a world" where
  "Insert T pos val v w = EmplaceShared T pos val v w"

definition EmplaceBack ::
  "'a elem_type \<Rightarrow> 'a \<Rightarrow> Vector \<Rightarrow> 'a world \<Rightarrow> (error + ptr) \<times> Vector \<times> 'a world" where
  \<comment> \<open>the reference returned is the address of the element\<close>
  "EmplaceBack T x v w =
     (case end_it v of Inl e \<Rightarrow> (Inl e, v, w) | Inr en \<Rightarrow> EmplaceShared T en x v w)"

definition PushBack ::
  "'a elem_type \<Rightarrow> 'a \<Rightarrow> Vector \<Rightarrow> 'a world \<Rightarrow> (error + unit) \<times> Vector \<times> 'a world" where
  "PushBack T val v w =
     (case end_it v of
        Inl e \<Rightarrow> (Inl e, v, w)
      | Inr en \<Rightarrow>
          (case EmplaceShared T en val v w of
             (Inl e, v1, w1) \<Rightarrow> (Inl e, v1, w1)
           | (Inr result, v1, w1) \<Rightarrow> (Inr (), v1, w1)))"

definition PopBack :: "Vector \<Rightarrow> 'a world \<Rightarrow> Vector \<times> 'a world" where
  "PopBack v w =
     (v\<lparr>size_m := wrap (size_m v + 2 ^ 64 - 1)\<rparr>,
      destroy_n (ptr_add (GetAddress (data_m v)) (int (wrap (size_m v + 2 ^ 64 - 1)))) 1 w)"

text \<open>\<^verbatim>\<open>Erase\<close> is \<^verbatim>\<open>noexcept\<close>: an exception of a move assignment ends the program.\<close>

definition Erase ::
  "'a elem_type \<Rightarrow> ptr \<Rightarrow> Vector \<Rightarrow> 'a world \<Rightarrow> (error + ptr) \<times> Vector \<times> 'a world" where
  "Erase T pos v w =
     (let w1 = destroy_at pos w
      in case end_it v of
           Inl e \<Rightarrow> (Inl e, v, w1)
         | Inr en \<Rightarrow>
             (case std_move T (ptr_add pos 1) en pos w1 of
                (Inl e, w2) \<Rightarrow> (Inl Terminate, v, w2)
              | (Inr u, w2) \<Rightarrow>
                  (let v1 = v\<lparr>size_m := wrap (size_m v + 2 ^ 64 - 1)\<rparr>
                   in case begin_it v1 of
                        Inl e \<Rightarrow> (Inl e, v1, w2)
                      | Inr b \<Rightarrow>
                          (case cbegin v1 of
                             Inl e \<Rightarrow> (Inl e, v1, w2)
                           | Inr cb \<Rightarrow> (Inr (ptr_add b (distance cb pos)), v1, w2)))))"

subsection \<open>Assignment\<close>

text \<open>
  The assignment operators take two references, which may name the same object. The
  vector objects therefore live in a store, a list indexed by reference, and every
  member access reads or writes that store.
\<close>

fun copy_assign_loop ::
  "Vector \<Rightarrow> Vector \<Rightarrow> nat \<Rightarrow> nat \<Rightarrow> 'a world \<Rightarrow> (error + unit) \<times> 'a world" where
  \<comment> \<open>\<^verbatim>\<open>for (; i != n; ++i) data_[i] = rhs[i];\<close> with \<open>k\<close> iterations left\<close>
  "copy_assign_loop v rhs i 0 w = (Inr (), w)"
| "copy_assign_loop v rhs i (Suc k) w =
     (case RawMemory_index (data_m v) i of
        Inl e \<Rightarrow> (Inl e, w)
      | Inr d \<Rightarrow>
          (case Vector_index rhs i of
             Inl e \<Rightarrow> (Inl e, w)
           | Inr s \<Rightarrow>
               (case copy_assign_elem d s w of
                  (Inl e, w1) \<Rightarrow> (Inl e, w1)
                | (Inr u, w1) \<Rightarrow> copy_assign_loop v rhs (i + 1) k w1)))"

definition copy_assign_inplace ::
  "Vector \<Rightarrow> Vector \<Rightarrow> 'a world \<Rightarrow> (error + unit) \<times> 'a world" where
  \<comment> \<open>the branch \<^verbatim>\<open>rhs.size_ <= data_.Capacity()\<close> of the copy assignment\<close>
  "copy_assign_inplace v rhs w =
     (if Size v > Size rhs then
        (case copy_assign_loop v rhs 0 (Size rhs) w of
           (Inl e, w1) \<Rightarrow> (Inl e, w1)
         | (Inr u, w1) \<Rightarrow>
             (Inr (), destroy_n (ptr_add (GetAddress (data_m v)) (int (Size rhs)))
                        (Size v - Size rhs) w1))
      else
        (case copy_assign_loop v rhs 0 (Size v) w of
           (Inl e, w1) \<Rightarrow> (Inl e, w1)
         | (Inr u, w1) \<Rightarrow>
             uninitialized_copy_n (ptr_add (GetAddress (data_m rhs)) (int (Size v)))
               (Size rhs - Size v) (ptr_add (GetAddress (data_m v)) (int (Size v))) w1))"

definition Vector_copy_assign ::
  "'a elem_type \<Rightarrow> nat \<Rightarrow> nat \<Rightarrow> Vector list \<Rightarrow> 'a world
     \<Rightarrow> (error + unit) \<times> Vector list \<times> 'a world" where
  "Vector_copy_assign T this rhs os w =
     (if this \<noteq> rhs then
        (if size_m (os ! rhs) > RawMemory_Capacity (data_m (os ! this)) then
           (case Vector_copy_ctor T (os ! rhs) w of
              (Inl e, w1) \<Rightarrow> (Inl e, os, w1)
            | (Inr rhs_copy, w1) \<Rightarrow>
                (case Vector_Swap (os ! this) rhs_copy of
                   (v1, rhs_copy1) \<Rightarrow>
                     (Inr (), os[this := v1\<lparr>size_m := size_m (os ! rhs)\<rparr>],
                      Vector_dtor rhs_copy1 w1)))
         else
           (case copy_assign_inplace (os ! this) (os ! rhs) w of
              (Inl e, w1) \<Rightarrow> (Inl e, os, w1)
            | (Inr u, w1) \<Rightarrow> (Inr (), os[this := (os ! this)\<lparr>size_m := size_m (os ! rhs)\<rparr>], w1)))
      else (Inr (), os, w))"

definition RawMemory_move_assign :: "nat \<Rightarrow> nat \<Rightarrow> Vector list \<Rightarrow> Vector list" where
  \<comment> \<open>\<^verbatim>\<open>RawMemory::operator=(RawMemory&&)\<close> on the members \<^verbatim>\<open>data_\<close> of two vectors\<close>
  "RawMemory_move_assign this rhs os =
     (let os1 = os[this := (os ! this)\<lparr>data_m := (data_m (os ! this))
                  \<lparr>buffer_m := buffer_m (data_m (os ! rhs))\<rparr>\<rparr>];
          os2 = os1[this := (os1 ! this)\<lparr>data_m := (data_m (os1 ! this))
                  \<lparr>capacity_m := capacity_m (data_m (os1 ! rhs))\<rparr>\<rparr>];
          os3 = os2[rhs := (os2 ! rhs)\<lparr>data_m := (data_m (os2 ! rhs))\<lparr>buffer_m := Null\<rparr>\<rparr>];
          os4 = os3[rhs := (os3 ! rhs)\<lparr>data_m := (data_m (os3 ! rhs))\<lparr>capacity_m := 0\<rparr>\<rparr>]
      in os4)"

definition Vector_move_assign :: "nat \<Rightarrow> nat \<Rightarrow> Vector list \<Rightarrow> Vector list" where
  "Vector_move_assign this rhs os =
     (let os1 = RawMemory_move_assign this rhs os;
          os2 = os1[this := (os1 ! this)\<lparr>size_m := size_m (os1 ! rhs)\<rparr>];
          os3 = os2[rhs := (os2 ! rhs)\<lparr>size_m := 0\<rparr>]
      in os3)"

definition Vector_move_ctor :: "nat \<Rightarrow> Vector list \<Rightarrow> nat \<times> Vector list" where
  \<comment> \<open>the new object, with its default member initialisers, gets the next reference\<close>
  "Vector_move_ctor other os =
     (let this = length os;
          os0 = os @ [Vector_default];
          os1 = RawMemory_move_assign this other os0;
          os2 = os1[this := (os1 ! this)\<lparr>size_m := size_m (os1 ! other)\<rparr>];
          os3 = os2[other := (os2 ! other)\<lparr>size_m := 0\<rparr>]
      in (this, os3))"

section \<open>Well-formed vectors and their elements\<close>

text \<open>
  The class invariant: the size is at most the capacity; the storage is null exactly when
  the capacity is zero, and otherwise is a live block of \<open>capacity\<close> slots, whose byte size
  fits \<^verbatim>\<open>size_t\<close>; the first \<open>size\<close> slots hold objects.
\<close>

definition elem_type_ok :: "'a elem_type \<Rightarrow> bool" where
  "elem_type_ok T \<longleftrightarrow> 0 < sizeof_T T \<and> sizeof_T T < 2 ^ 64"

definition elems :: "Vector \<Rightarrow> 'a world \<Rightarrow> 'a slot list" where
  \<comment> \<open>the slots \<^verbatim>\<open>v[0]\<close>, ..., \<^verbatim>\<open>v[size - 1]\<close>\<close>
  "elems v w = map (\<lambda>i. load w (ptr_add (buffer_m (data_m v)) (int i))) [0..<size_m v]"

definition vector_ok :: "'a elem_type \<Rightarrow> Vector \<Rightarrow> 'a world \<Rightarrow> bool" where
  "vector_ok T v w \<longleftrightarrow>
     size_m v \<le> capacity_m (data_m v) \<and>
     capacity_m (data_m v) * sizeof_T T < 2 ^ 64 \<and>
     (case buffer_m (data_m v) of
        Null \<Rightarrow> capacity_m (data_m v) = 0
      | Ptr a i \<Rightarrow> i = 0 \<and> 0 < capacity_m (data_m v) \<and>
                   block_len w a = Some (capacity_m (data_m v))) \<and>
     list_all (\<lambda>s. s \<noteq> None) (elems v w)"

text \<open>The iterator \<^verbatim>\<open>begin() + i\<close>.\<close>

definition iter :: "Vector \<Rightarrow> nat \<Rightarrow> ptr" where
  "iter v i = (if Capacity v = 0 then Null else ptr_add (buffer_m (data_m v)) (int i))"

text \<open>Two worlds with the same blocks, block for block of the same length.\<close>

definition same_shape :: "'a world \<Rightarrow> 'a world \<Rightarrow> bool" where
  "same_shape w w' \<longleftrightarrow>
     length (heap w') = length (heap w) \<and> (\<forall>a. block_len w' a = block_len w a)"

text \<open>Two vectors whose storage, where they have any, lies in two different blocks.\<close>

definition separate :: "Vector \<Rightarrow> Vector \<Rightarrow> bool" where
  "separate v u \<longleftrightarrow>
     (case buffer_m (data_m v) of
        Null \<Rightarrow> True
      | Ptr a i \<Rightarrow> (case buffer_m (data_m u) of Null \<Rightarrow> True | Ptr b j \<Rightarrow> a \<noteq> b))"

section \<open>Examples\<close>

text \<open>
  Three element types over \<open>int\<close> values: one like \<^verbatim>\<open>int\<close>; one that is copyable and whose
  move constructor may throw; one that is not copyable and whose move constructor may
  throw. A moved-from object of the last two holds \<open>- 1\<close>.
\<close>

definition T_int :: "int elem_type" where
  "T_int = \<lparr>sizeof_T = 4, is_nothrow_move_constructible = True,
            is_copy_constructible = True, value_init = 0, moved_from = (\<lambda>x. x)\<rparr>"

definition T_copyable :: "int elem_type" where
  "T_copyable = \<lparr>sizeof_T = 32, is_nothrow_move_constructible = False,
                 is_copy_constructible = True, value_init = 0, moved_from = (\<lambda>x. - 1)\<rparr>"

definition T_move_only :: "int elem_type" where
  "T_move_only = \<lparr>sizeof_T = 32, is_nothrow_move_constructible = False,
                  is_copy_constructible = False, value_init = 0, moved_from = (\<lambda>x. - 1)\<rparr>"

text \<open>A vector holding 1, 2, 3 in a block of four slots at address 0.\<close>

definition v123 :: Vector where
  "v123 = \<lparr>data_m = \<lparr>buffer_m = Ptr 0 0, capacity_m = 4\<rparr>, size_m = 3\<rparr>"

definition w123 :: "bool list \<Rightarrow> int world" where
  "w123 fs = \<lparr>heap = [Some [Some 1, Some 2, Some 3, None]], faults = fs\<rparr>"

text \<open>A full vector holding 1, 2 in a block of two slots at address 0.\<close>

definition v12 :: Vector where
  "v12 = \<lparr>data_m = \<lparr>buffer_m = Ptr 0 0, capacity_m = 2\<rparr>, size_m = 2\<rparr>"

definition w12 :: "bool list \<Rightarrow> int world" where
  "w12 fs = \<lparr>heap = [Some [Some 1, Some 2]], faults = fs\<rparr>"

text \<open>
  A second vector holding 7, 8 in a full block of two slots at address 1, and a world
  with this block beside the block of \<open>v123\<close>.
\<close>

definition v78 :: Vector where
  "v78 = \<lparr>data_m = \<lparr>buffer_m = Ptr 1 0, capacity_m = 2\<rparr>, size_m = 2\<rparr>"

definition w123_78 :: "bool list \<Rightarrow> int world" where
  "w123_78 fs = \<lparr>heap = [Some [Some 1, Some 2, Some 3, None], Some [Some 7, Some 8]],
                 faults = fs\<rparr>"

text \<open>Appending the elements of a list one after the other with \<^verbatim>\<open>PushBack\<close>.\<close>

fun push_all ::
  "'a elem_type \<Rightarrow> 'a list \<Rightarrow> Vector \<Rightarrow> 'a world \<Rightarrow> (error + unit) \<times> Vector \<times> 'a world" where
  "push_all T [] v w = (Inr (), v, w)"
| "push_all T (x # xs) v w =
     (case PushBack T x v w of
        (Inl e, v1, w1) \<Rightarrow> (Inl e, v1, w1)
      | (Inr u, v1, w1) \<Rightarrow> push_all T xs v1 w1)"

section \<open>Move construction and move assignment\<close>

text \<open>
  C9. Move-assigning a vector to itself leaves it with size 0 and capacity 0 and a null
  storage pointer, so that it has no elements any more: the assignment has no guard
  against self-assignment. No other object of the store changes.
\<close>

theorem move_assign_self:
  assumes "this < length os"
  shows "size_m (Vector_move_assign this this os ! this) = 0
    \<and> Capacity (Vector_move_assign this this os ! this) = 0
    \<and> buffer_m (data_m (Vector_move_assign this this os ! this)) = Null
    \<and> elems (Vector_move_assign this this os ! this) w = []
    \<and> length (Vector_move_assign this this os) = length os
    \<and> (\<forall>k. k \<noteq> this \<longrightarrow> Vector_move_assign this this os ! k = os ! k)"
  using assms
  by (simp add: Vector_move_assign_def RawMemory_move_assign_def Let_def Capacity_def
      RawMemory_Capacity_def elems_def)

theorem move_assign_self_witness:
  "(0::nat) < length [v123] \<and> elems ([v123] ! 0) (w123 []) = [Some 1, Some 2, Some 3]
    \<and> size_m (Vector_move_assign 0 0 [v123] ! 0) = 0
    \<and> Capacity (Vector_move_assign 0 0 [v123] ! 0) = 0
    \<and> elems (Vector_move_assign 0 0 [v123] ! 0) (w123 []) = []"
proof -
  have h: "(0::nat) < length [v123]" by simp
  have e: "elems ([v123] ! 0) (w123 []) = [Some 1, Some 2, Some 3]"
    by (simp add: elems_def v123_def w123_def eval_nat_numeral)
  from move_assign_self [OF h, of "w123 []"] h e show ?thesis by blast
qed

text \<open>
  C7. Move construction from a vector, and move assignment between two distinct vectors,
  hand the storage and the size of the source to the destination: the destination is
  afterwards the record the source was, so it has the source's size, capacity and
  elements in the same order, and the source has size 0, capacity 0 and a null storage
  pointer. The constructed object is a new one, whatever the store holds beside the
  source. Both operations are functions of the store of vector objects alone: they do not
  take the world, so no element is constructed, assigned or destroyed.
\<close>

theorem move_transfers_storage:
  assumes "rhs < length os"
  shows "fst (Vector_move_ctor rhs os) = length os
    \<and> snd (Vector_move_ctor rhs os) ! length os = os ! rhs
    \<and> size_m (snd (Vector_move_ctor rhs os) ! length os) = size_m (os ! rhs)
    \<and> Capacity (snd (Vector_move_ctor rhs os) ! length os) = Capacity (os ! rhs)
    \<and> elems (snd (Vector_move_ctor rhs os) ! length os) w = elems (os ! rhs) w
    \<and> size_m (snd (Vector_move_ctor rhs os) ! rhs) = 0
    \<and> Capacity (snd (Vector_move_ctor rhs os) ! rhs) = 0
    \<and> buffer_m (data_m (snd (Vector_move_ctor rhs os) ! rhs)) = Null
    \<and> (this < length os \<and> this \<noteq> rhs \<longrightarrow>
          Vector_move_assign this rhs os ! this = os ! rhs
          \<and> size_m (Vector_move_assign this rhs os ! this) = size_m (os ! rhs)
          \<and> Capacity (Vector_move_assign this rhs os ! this) = Capacity (os ! rhs)
          \<and> elems (Vector_move_assign this rhs os ! this) w = elems (os ! rhs) w
          \<and> size_m (Vector_move_assign this rhs os ! rhs) = 0
          \<and> Capacity (Vector_move_assign this rhs os ! rhs) = 0
          \<and> buffer_m (data_m (Vector_move_assign this rhs os ! rhs)) = Null)"
proof -
  have c: "fst (Vector_move_ctor rhs os) = length os"
    by (simp add: Vector_move_ctor_def Let_def)
  have d: "snd (Vector_move_ctor rhs os) ! length os = os ! rhs"
    using assms
    by (simp add: Vector_move_ctor_def RawMemory_move_assign_def Let_def
        Vector_default_def RawMemory_default_def nth_append list_update_append)
  have e: "snd (Vector_move_ctor rhs os) ! rhs = Vector_default"
    using assms
    by (simp add: Vector_move_ctor_def RawMemory_move_assign_def Let_def
        Vector_default_def RawMemory_default_def nth_append list_update_append)
  have ctor: "fst (Vector_move_ctor rhs os) = length os
    \<and> snd (Vector_move_ctor rhs os) ! length os = os ! rhs
    \<and> size_m (snd (Vector_move_ctor rhs os) ! length os) = size_m (os ! rhs)
    \<and> Capacity (snd (Vector_move_ctor rhs os) ! length os) = Capacity (os ! rhs)
    \<and> elems (snd (Vector_move_ctor rhs os) ! length os) w = elems (os ! rhs) w
    \<and> size_m (snd (Vector_move_ctor rhs os) ! rhs) = 0
    \<and> Capacity (snd (Vector_move_ctor rhs os) ! rhs) = 0
    \<and> buffer_m (data_m (snd (Vector_move_ctor rhs os) ! rhs)) = Null"
    unfolding c d e
    by (simp add: Vector_default_def RawMemory_default_def Capacity_def RawMemory_Capacity_def)
  have asg: "Vector_move_assign this rhs os ! this = os ! rhs
          \<and> size_m (Vector_move_assign this rhs os ! this) = size_m (os ! rhs)
          \<and> Capacity (Vector_move_assign this rhs os ! this) = Capacity (os ! rhs)
          \<and> elems (Vector_move_assign this rhs os ! this) w = elems (os ! rhs) w
          \<and> size_m (Vector_move_assign this rhs os ! rhs) = 0
          \<and> Capacity (Vector_move_assign this rhs os ! rhs) = 0
          \<and> buffer_m (data_m (Vector_move_assign this rhs os ! rhs)) = Null"
    if t: "this < length os" "this \<noteq> rhs"
  proof -
    have a: "Vector_move_assign this rhs os ! this = os ! rhs"
      using assms t by (simp add: Vector_move_assign_def RawMemory_move_assign_def Let_def)
    have b: "Vector_move_assign this rhs os ! rhs = Vector_default"
      using assms t
      by (simp add: Vector_move_assign_def RawMemory_move_assign_def Let_def
          Vector_default_def RawMemory_default_def)
    show ?thesis
      unfolding a b
      by (simp add: Vector_default_def RawMemory_default_def Capacity_def
          RawMemory_Capacity_def)
  qed
  from ctor asg show ?thesis by blast
qed

theorem move_transfers_storage_witness:
  "(0::nat) < length [v123]
    \<and> elems ([v123] ! 0) (w123 []) = [Some 1, Some 2, Some 3]
    \<and> fst (Vector_move_ctor 0 [v123]) = 1
    \<and> snd (Vector_move_ctor 0 [v123]) ! 1 = v123
    \<and> size_m (snd (Vector_move_ctor 0 [v123]) ! 1) = 3
    \<and> Capacity (snd (Vector_move_ctor 0 [v123]) ! 1) = 4
    \<and> elems (snd (Vector_move_ctor 0 [v123]) ! 1) (w123 []) = [Some 1, Some 2, Some 3]
    \<and> size_m (snd (Vector_move_ctor 0 [v123]) ! 0) = 0
    \<and> Capacity (snd (Vector_move_ctor 0 [v123]) ! 0) = 0
    \<and> (0::nat) < length [Vector_default, v123] \<and> (1::nat) < length [Vector_default, v123]
    \<and> (0::nat) \<noteq> 1
    \<and> Vector_move_assign 0 1 [Vector_default, v123] ! 0 = v123
    \<and> elems (Vector_move_assign 0 1 [Vector_default, v123] ! 0) (w123 [])
        = [Some 1, Some 2, Some 3]
    \<and> size_m (Vector_move_assign 0 1 [Vector_default, v123] ! 1) = 0
    \<and> Capacity (Vector_move_assign 0 1 [Vector_default, v123] ! 1) = 0"
proof -
  have h1: "(0::nat) < length [v123]" by simp
  have h2: "(1::nat) < length [Vector_default, v123]" by simp
  have h3: "(0::nat) < length [Vector_default, v123] \<and> (0::nat) \<noteq> 1" by simp
  have e: "elems v123 (w123 []) = [Some 1, Some 2, Some 3]"
    "size_m v123 = 3" "Capacity v123 = 4"
    by (simp_all add: elems_def v123_def w123_def Capacity_def RawMemory_Capacity_def
        eval_nat_numeral)
  have n: "[v123] ! 0 = v123" "[Vector_default, v123] ! 1 = v123" "length [v123] = 1"
    by simp_all
  from move_transfers_storage [OF h1, where w = "w123 []"]
  have c: "fst (Vector_move_ctor 0 [v123]) = 1
    \<and> snd (Vector_move_ctor 0 [v123]) ! 1 = v123
    \<and> size_m (snd (Vector_move_ctor 0 [v123]) ! 1) = 3
    \<and> Capacity (snd (Vector_move_ctor 0 [v123]) ! 1) = 4
    \<and> elems (snd (Vector_move_ctor 0 [v123]) ! 1) (w123 []) = [Some 1, Some 2, Some 3]
    \<and> size_m (snd (Vector_move_ctor 0 [v123]) ! 0) = 0
    \<and> Capacity (snd (Vector_move_ctor 0 [v123]) ! 0) = 0"
    unfolding n e by blast
  from move_transfers_storage [OF h2, where w = "w123 []" and this = 0] h3
  have a: "Vector_move_assign 0 1 [Vector_default, v123] ! 0 = v123
    \<and> elems (Vector_move_assign 0 1 [Vector_default, v123] ! 0) (w123 [])
        = [Some 1, Some 2, Some 3]
    \<and> size_m (Vector_move_assign 0 1 [Vector_default, v123] ! 1) = 0
    \<and> Capacity (Vector_move_assign 0 1 [Vector_default, v123] ! 1) = 0"
    unfolding n e by blast
  from h1 h2 h3 e n(1) c a show ?thesis by simp
qed

section \<open>Memory lemmas\<close>

lemma same_shape_refl [simp]: "same_shape w w"
  by (simp add: same_shape_def)

lemma same_shape_trans: "same_shape w w1 \<Longrightarrow> same_shape w1 w2 \<Longrightarrow> same_shape w w2"
  by (simp add: same_shape_def)

lemma same_shape_block_len: "same_shape w w' \<Longrightarrow> block_len w' a = block_len w a"
  by (simp add: same_shape_def)

lemma same_shape_length: "same_shape w w' \<Longrightarrow> length (heap w') = length (heap w)"
  by (simp add: same_shape_def)

lemma same_shape_valid: "same_shape w w' \<Longrightarrow> valid w' p = valid w p"
  by (cases p) (simp_all add: same_shape_def)

lemma block_len_less: "block_len w a = Some m \<Longrightarrow> a < length (heap w)"
  by (simp add: block_len_def split: if_splits)

lemma valid_Ptr: "block_len w a = Some m \<Longrightarrow> valid w (Ptr a i) \<longleftrightarrow> i < m"
  by simp

lemma load_invalid: "\<not> valid w p \<Longrightarrow> load w p = None"
  by (cases p) (auto simp: block_len_def split: option.splits)

lemma block_len_store [simp]: "block_len (store p s w) a = block_len w a"
  by (cases p) (auto simp: block_len_def nth_list_update split: option.splits)

lemma length_heap_store [simp]: "length (heap (store p s w)) = length (heap w)"
  by (cases p) (auto split: option.splits)

lemma same_shape_store [simp]: "same_shape w (store p s w') = same_shape w w'"
  by (simp add: same_shape_def)

lemma valid_store [simp]: "valid (store p s w) q = valid w q"
  by (cases q) simp_all

lemma faults_store [simp]: "faults (store p s w) = faults w"
  by (cases p) (auto split: option.splits)

lemma load_store: "load (store p s w) q = (if q = p \<and> valid w p then s else load w q)"
  by (cases p; cases q)
    (auto simp: block_len_def nth_list_update split: option.splits if_splits)

lemma load_store_None: "load (store p None w) q = (if q = p then None else load w q)"
  using load_invalid [of w p] by (simp add: load_store)

lemma load_faults [simp]: "load (w\<lparr>faults := f\<rparr>) p = load w p"
  by (cases p) simp_all

lemma block_len_faults [simp]: "block_len (w\<lparr>faults := f\<rparr>) a = block_len w a"
  by (simp add: block_len_def)

lemma same_shape_faults [simp]:
  "same_shape w (w'\<lparr>faults := f\<rparr>) = same_shape w w'"
  by (simp add: same_shape_def)

lemma valid_faults [simp]: "valid (w\<lparr>faults := f\<rparr>) p = valid w p"
  by (cases p) simp_all

lemma store_faults: "store p s (w\<lparr>faults := f\<rparr>) = (store p s w)\<lparr>faults := f\<rparr>"
  by (cases p) (auto split: option.splits)

lemma may_throw_load: "may_throw w = (b, w') \<Longrightarrow> load w' p = load w p"
  by (auto simp: may_throw_def split: list.splits)

lemma may_throw_shape: "may_throw w = (b, w') \<Longrightarrow> same_shape w w'"
  by (auto simp: may_throw_def split: list.splits)

lemma may_throw_quiet: "faults w = [] \<Longrightarrow> may_throw w = (False, w)"
  by (simp add: may_throw_def)

text \<open>Allocation and release.\<close>

lemma operator_new_Inr:
  assumes "operator_new T bytes w = (Inr p, w')"
  shows "p = Ptr (length (heap w)) 0"
    and "length (heap w') = Suc (length (heap w))"
    and "block_len w' a = (if a = length (heap w) then Some (bytes div sizeof_T T)
                           else block_len w a)"
    and "load w' q = load w q"
  using assms
  by (cases q; auto simp: operator_new_def may_throw_def block_len_def nth_append
      split: list.splits bool.splits if_splits)+

lemma operator_new_Inl:
  assumes "operator_new T bytes w = (Inl e, w')"
  shows "e = BadAlloc" and "same_shape w w'" and "load w' q = load w q"
  using assms
  by (auto simp: operator_new_def may_throw_def split: list.splits bool.splits if_splits)

lemma operator_new_quiet:
  "faults w = [] \<Longrightarrow> \<exists>p w'. operator_new T bytes w = (Inr p, w') \<and> faults w' = []"
  by (simp add: operator_new_def may_throw_def)

lemma load_operator_delete:
  "load (operator_delete (Ptr a i) w) (Ptr c k) = (if c = a then None else load w (Ptr c k))"
  by (auto simp: nth_list_update)

lemma block_len_operator_delete:
  "block_len (operator_delete (Ptr a i) w) c = (if c = a then None else block_len w c)"
  by (auto simp: block_len_def nth_list_update)

lemma length_operator_delete [simp]:
  "length (heap (operator_delete p w)) = length (heap w)"
  by (cases p) simp_all

lemma faults_operator_delete [simp]: "faults (operator_delete p w) = faults w"
  by (cases p) simp_all

text \<open>The operations of the element type.\<close>

lemma construct_at_Inr:
  assumes "construct_at p x w = (Inr u, w')"
  shows "same_shape w w'"
    and "load w' q = (if q = p \<and> valid w p then Some x else load w q)"
  using assms
  by (auto simp: construct_at_def may_throw_def load_store split: list.splits bool.splits)

lemma construct_at_Inl:
  assumes "construct_at p x w = (Inl e, w')"
  shows "e = ElemThrow" and "same_shape w w'" and "load w' q = load w q"
  using assms
  by (auto simp: construct_at_def may_throw_def split: list.splits bool.splits)

lemma construct_at_quiet:
  "faults w = [] \<Longrightarrow> \<exists>w'. construct_at p x w = (Inr (), w') \<and> faults w' = []"
  by (simp add: construct_at_def may_throw_def)

lemma construct_temp_Inr:
  assumes "construct_temp x w = (Inr y, w')"
  shows "y = x" and "same_shape w w'" and "load w' q = load w q"
  using assms
  by (auto simp: construct_temp_def may_throw_def split: list.splits bool.splits)

lemma construct_temp_quiet:
  "faults w = [] \<Longrightarrow> construct_temp x w = (Inr x, w)"
  by (simp add: construct_temp_def may_throw_def)

lemma value_construct_at_Inr:
  assumes "value_construct_at T p w = (Inr u, w')"
  shows "same_shape w w'"
    and "load w' q = (if q = p \<and> valid w p then Some (value_init T) else load w q)"
  using assms
  by (auto simp: value_construct_at_def may_throw_def load_store
      split: list.splits bool.splits)

lemma value_construct_at_quiet:
  "faults w = [] \<Longrightarrow> \<exists>w'. value_construct_at T p w = (Inr (), w') \<and> faults w' = []"
  by (simp add: value_construct_at_def may_throw_def)

lemma copy_construct_at_Inr:
  assumes "copy_construct_at p src w = (Inr u, w')"
  shows "same_shape w w'"
    and "load w' q = (if q = p \<and> valid w p then load w src else load w q)"
  using assms
  by (auto simp: copy_construct_at_def may_throw_def load_store
      split: list.splits bool.splits)

lemma copy_construct_at_Inl:
  assumes "copy_construct_at p src w = (Inl e, w')"
  shows "e = ElemThrow" and "same_shape w w'" and "load w' q = load w q"
  using assms
  by (auto simp: copy_construct_at_def may_throw_def split: list.splits bool.splits)

lemma copy_construct_at_quiet:
  "faults w = [] \<Longrightarrow> \<exists>w'. copy_construct_at p src w = (Inr (), w') \<and> faults w' = []"
  by (simp add: copy_construct_at_def may_throw_def)

lemma same_shape_assign_slot [simp]: "same_shape w (assign_slot p s w') = same_shape w w'"
  by (simp add: assign_slot_def)

lemma faults_assign_slot [simp]: "faults (assign_slot p s w) = faults w"
  by (simp add: assign_slot_def)

lemma block_len_assign_slot [simp]: "block_len (assign_slot p s w) a = block_len w a"
  by (simp add: assign_slot_def)

lemma valid_assign_slot [simp]: "valid (assign_slot p s w) q = valid w q"
  by (simp add: assign_slot_def)

lemma load_assign_slot:
  "load (assign_slot p s w) q = (if q = p \<and> load w p \<noteq> None then s else load w q)"
  using load_invalid [of w p] by (auto simp: assign_slot_def load_store)

lemma copy_assign_elem_Inr:
  assumes "copy_assign_elem p src w = (Inr u, w')"
  shows "same_shape w w'"
    and "load w' q = (if q = p \<and> load w p \<noteq> None then load w src else load w q)"
  using assms
  by (auto simp: copy_assign_elem_def may_throw_def load_assign_slot
      split: list.splits bool.splits)

lemma copy_assign_elem_quiet:
  "faults w = [] \<Longrightarrow> \<exists>w'. copy_assign_elem p src w = (Inr (), w') \<and> faults w' = []"
  by (simp add: copy_assign_elem_def may_throw_def)

lemma move_construct_at_Inr:
  assumes "move_construct_at T p src w = (Inr u, w')" and "p \<noteq> src"
  shows "same_shape w w'"
    and "load w' q = (if q = src then map_option (moved_from T) (load w src)
                      else if q = p \<and> valid w p then load w src else load w q)"
  using assms load_invalid [of w src]
  by (auto simp: move_construct_at_def may_throw_def load_store
      split: list.splits bool.splits if_splits)

lemma move_construct_at_nothrow:
  "is_nothrow_move_constructible T \<Longrightarrow>
     \<exists>w'. move_construct_at T p src w = (Inr (), w') \<and> faults w' = faults w"
  by (simp add: move_construct_at_def)

lemma move_construct_at_quiet:
  "faults w = [] \<Longrightarrow> \<exists>w'. move_construct_at T p src w = (Inr (), w') \<and> faults w' = []"
  by (simp add: move_construct_at_def may_throw_def)

lemma move_assign_elem_Inr:
  assumes "move_assign_elem T p src w = (Inr u, w')" and "p \<noteq> src"
  shows "same_shape w w'"
    and "load w' q = (if q = src then map_option (moved_from T) (load w src)
                      else if q = p \<and> load w p \<noteq> None then load w src else load w q)"
  using assms load_invalid [of w src]
  by (auto simp: move_assign_elem_def may_throw_def load_store load_assign_slot
      split: list.splits bool.splits if_splits)

lemma move_assign_elem_quiet:
  "faults w = [] \<Longrightarrow> \<exists>w'. move_assign_elem T p src w = (Inr (), w') \<and> faults w' = []"
  by (simp add: move_assign_elem_def may_throw_def)

lemma move_assign_temp_Inr:
  assumes "move_assign_temp p x w = (Inr u, w')"
  shows "same_shape w w'"
    and "load w' q = (if q = p \<and> load w p \<noteq> None then Some x else load w q)"
  using assms
  by (auto simp: move_assign_temp_def may_throw_def load_assign_slot
      split: list.splits bool.splits)

lemma move_assign_temp_quiet:
  "faults w = [] \<Longrightarrow> \<exists>w'. move_assign_temp p x w = (Inr (), w') \<and> faults w' = []"
  by (simp add: move_assign_temp_def may_throw_def)

lemma same_shape_destroy_at [simp]: "same_shape w (destroy_at p w') = same_shape w w'"
  by (simp add: destroy_at_def)

lemma load_destroy_at: "load (destroy_at p w) q = (if q = p then None else load w q)"
  by (simp add: destroy_at_def load_store_None)

lemma faults_destroy_at [simp]: "faults (destroy_at p w) = faults w"
  by (simp add: destroy_at_def)

lemma ptr_add_nat [simp]: "ptr_add (Ptr a i) (int k) = Ptr a (i + k)"
  by (simp add: nat_int_add)

lemma ptr_add_one [simp]: "ptr_add (Ptr a i) 1 = Ptr a (Suc i)"
  by (simp add: nat_add_distrib)

lemma ptr_add_minus_one [simp]: "ptr_add (Ptr a (Suc i)) (- 1) = Ptr a i"
  by simp

lemma distance_Ptr [simp]: "distance (Ptr a i) (Ptr b j) = int j - int i"
  by (simp add: distance_def)

lemma distance_Null [simp]: "distance Null Null = 0"
  by (simp add: distance_def)

lemma load_fresh_block: "length (heap w) \<le> a \<Longrightarrow> load w (Ptr a i) = None"
  by simp

declare load.simps(2) [simp del] store.simps(2) [simp del] ptr_add.simps(2) [simp del]
declare operator_delete.simps(2) [simp del]

section \<open>The algorithms\<close>

lemma destroy_n_Null [simp]: "destroy_n Null n w = w"
  by (induction n arbitrary: w) (simp_all add: destroy_at_def)

lemma same_shape_destroy_n [simp]: "same_shape w (destroy_n p n w') = same_shape w w'"
  by (induction n arbitrary: p w') simp_all

lemma block_len_destroy_n [simp]: "block_len (destroy_n p n w) a = block_len w a"
  by (induction n arbitrary: p w) (simp_all add: destroy_at_def)

lemma length_heap_destroy_n [simp]: "length (heap (destroy_n p n w)) = length (heap w)"
  by (induction n arbitrary: p w) (simp_all add: destroy_at_def)

lemma faults_destroy_n [simp]: "faults (destroy_n p n w) = faults w"
  by (induction n arbitrary: p w) simp_all

lemma load_destroy_n:
  "load (destroy_n (Ptr a i) n w) (Ptr c k)
   = (if c = a \<and> i \<le> k \<and> k < i + n then None else load w (Ptr c k))"
  by (induction n arbitrary: i w) (auto simp: load_destroy_at)

lemma uninitialized_copy_n_Inr:
  assumes "uninitialized_copy_n (Ptr a i) n (Ptr b j) w = (Inr u, w')"
    and "a \<noteq> b" and "block_len w b = Some m" and "j + n \<le> m"
  shows "same_shape w w' \<and>
    (\<forall>c k. load w' (Ptr c k)
       = (if c = b \<and> j \<le> k \<and> k < j + n then load w (Ptr a (i + (k - j)))
          else load w (Ptr c k)))"
  using assms
proof (induction n arbitrary: i j w)
  case 0
  then show ?case by auto
next
  case (Suc n)
  from Suc.prems(1) obtain w1 where
    c: "copy_construct_at (Ptr b j) (Ptr a i) w = (Inr (), w1)" and
    r: "uninitialized_copy_n (Ptr a (Suc i)) n (Ptr b (Suc j)) w1 = (Inr u, w')"
    by (auto split: prod.splits sum.splits)
  note c1 = copy_construct_at_Inr [OF c]
  have bl: "block_len w1 b = Some m"
    using c1(1) Suc.prems(3) by (simp add: same_shape_block_len)
  have vj: "valid w (Ptr b j)"
    using Suc.prems(3,4) by simp
  from Suc.IH [OF r Suc.prems(2) bl] Suc.prems(4)
  have ih: "same_shape w1 w'"
    "\<And>c k. load w' (Ptr c k)
       = (if c = b \<and> Suc j \<le> k \<and> k < Suc j + n then load w1 (Ptr a (Suc i + (k - Suc j)))
          else load w1 (Ptr c k))"
    by simp_all
  have "same_shape w w'"
    using c1(1) ih(1) by (rule same_shape_trans)
  moreover have "load w' (Ptr c k)
       = (if c = b \<and> j \<le> k \<and> k < j + Suc n then load w (Ptr a (i + (k - j)))
          else load w (Ptr c k))" for c k
  proof -
    have ar: "Suc i + (k - Suc j) = i + (k - j)" if "Suc j \<le> k"
      using that by arith
    show ?thesis
      using Suc.prems(2) vj ar by (auto simp: ih(2) c1(2) simp del: add_Suc)
  qed
  ultimately show ?case by blast
qed

lemma uninitialized_copy_n_Inl:
  assumes "uninitialized_copy_n src n (Ptr b j) w = (Inl e, w')"
  shows "e = ElemThrow \<and> same_shape w w' \<and>
    (\<forall>c k. c \<noteq> b \<longrightarrow> load w' (Ptr c k) = load w (Ptr c k))"
  using assms
proof (induction n arbitrary: src j w w')
  case 0
  then show ?case by simp
next
  case (Suc n)
  show ?case
  proof (cases "copy_construct_at (Ptr b j) src w")
    case (Pair r w1)
    show ?thesis
    proof (cases r)
      case (Inl e1)
      with Pair Suc.prems have "copy_construct_at (Ptr b j) src w = (Inl e, w')"
        by simp
      from copy_construct_at_Inl [OF this] show ?thesis by simp
    next
      case (Inr u1)
      with Pair have c: "copy_construct_at (Ptr b j) src w = (Inr u1, w1)" by simp
      from Suc.prems Pair Inr obtain w2 where
        r: "uninitialized_copy_n (ptr_add src 1) n (Ptr b (Suc j)) w1 = (Inl e, w2)" and
        w': "w' = destroy_at (Ptr b j) w2"
        by (auto split: prod.splits sum.splits)
      note c1 = copy_construct_at_Inr [OF c]
      from Suc.IH [OF r] have ih: "e = ElemThrow" "same_shape w1 w2"
        "\<And>c k. c \<noteq> b \<Longrightarrow> load w2 (Ptr c k) = load w1 (Ptr c k)"
        by simp_all
      have "same_shape w w'"
        unfolding w' using c1(1) ih(2) by (simp add: same_shape_trans)
      moreover have "load w' (Ptr c k) = load w (Ptr c k)" if "c \<noteq> b" for c k
        unfolding w' using that by (simp add: load_destroy_at ih(3) c1(2))
      ultimately show ?thesis using ih(1) by blast
    qed
  qed
qed

lemma uninitialized_copy_n_quiet:
  "faults w = [] \<Longrightarrow> \<exists>w'. uninitialized_copy_n src n d w = (Inr (), w') \<and> faults w' = []"
proof (induction n arbitrary: src d w)
  case 0
  then show ?case by simp
next
  case (Suc n)
  from copy_construct_at_quiet [OF Suc.prems, of d src] obtain w1 where
    c: "copy_construct_at d src w = (Inr (), w1)" and f: "faults w1 = []" by blast
  from Suc.IH [OF f, of "ptr_add src 1" "ptr_add d 1"] c show ?case by auto
qed

lemma uninitialized_move_n_Inr:
  assumes "uninitialized_move_n T (Ptr a i) n (Ptr b j) w = (Inr u, w')"
    and "a \<noteq> b" and "block_len w b = Some m" and "j + n \<le> m"
  shows "same_shape w w' \<and>
    (\<forall>c k. c \<noteq> a \<or> k < i \<or> i + n \<le> k \<longrightarrow> load w' (Ptr c k)
       = (if c = b \<and> j \<le> k \<and> k < j + n then load w (Ptr a (i + (k - j)))
          else load w (Ptr c k)))"
  using assms
proof (induction n arbitrary: i j w)
  case 0
  then show ?case by auto
next
  case (Suc n)
  from Suc.prems(1) obtain w1 where
    c: "move_construct_at T (Ptr b j) (Ptr a i) w = (Inr (), w1)" and
    r: "uninitialized_move_n T (Ptr a (Suc i)) n (Ptr b (Suc j)) w1 = (Inr u, w')"
    by (auto split: prod.splits sum.splits)
  have ne: "Ptr b j \<noteq> Ptr a i" using Suc.prems(2) by simp
  note c1 = move_construct_at_Inr [OF c ne]
  have bl: "block_len w1 b = Some m"
    using c1(1) Suc.prems(3) by (simp add: same_shape_block_len)
  have vj: "valid w (Ptr b j)"
    using Suc.prems(3,4) by simp
  from Suc.IH [OF r Suc.prems(2) bl] Suc.prems(4)
  have ih: "same_shape w1 w'"
    "\<And>c k. c \<noteq> a \<or> k < Suc i \<or> Suc i + n \<le> k \<Longrightarrow> load w' (Ptr c k)
       = (if c = b \<and> Suc j \<le> k \<and> k < Suc j + n then load w1 (Ptr a (Suc i + (k - Suc j)))
          else load w1 (Ptr c k))"
    by simp_all
  have "same_shape w w'"
    using c1(1) ih(1) by (rule same_shape_trans)
  moreover have "load w' (Ptr c k)
       = (if c = b \<and> j \<le> k \<and> k < j + Suc n then load w (Ptr a (i + (k - j)))
          else load w (Ptr c k))" if "c \<noteq> a \<or> k < i \<or> i + Suc n \<le> k" for c k
  proof -
    have ar: "Suc i + (k - Suc j) = i + (k - j)" if "Suc j \<le> k"
      using that by arith
    have c': "c \<noteq> a \<or> k < Suc i \<or> Suc i + n \<le> k" and ne: "Ptr c k \<noteq> Ptr a i"
      using that by auto
    show ?thesis
      using Suc.prems(2) vj ne ar by (auto simp: ih(2) [OF c'] c1(2) simp del: add_Suc)
  qed
  ultimately show ?case by blast
qed

lemma uninitialized_move_n_nothrow:
  "is_nothrow_move_constructible T \<Longrightarrow>
     \<exists>w'. uninitialized_move_n T src n d w = (Inr (), w') \<and> faults w' = faults w"
proof (induction n arbitrary: src d w)
  case 0
  then show ?case by simp
next
  case (Suc n)
  from move_construct_at_nothrow [OF Suc.prems, of d src w] obtain w1 where
    c: "move_construct_at T d src w = (Inr (), w1)" and f: "faults w1 = faults w" by blast
  from Suc.IH [OF Suc.prems, of "ptr_add src 1" "ptr_add d 1" w1] c f show ?case by auto
qed

lemma uninitialized_move_n_quiet:
  "faults w = [] \<Longrightarrow>
     \<exists>w'. uninitialized_move_n T src n d w = (Inr (), w') \<and> faults w' = []"
proof (induction n arbitrary: src d w)
  case 0
  then show ?case by simp
next
  case (Suc n)
  from move_construct_at_quiet [OF Suc.prems, of T d src] obtain w1 where
    c: "move_construct_at T d src w = (Inr (), w1)" and f: "faults w1 = []" by blast
  from Suc.IH [OF f, of "ptr_add src 1" "ptr_add d 1"] c show ?case by auto
qed

lemma relocate_n_Inr:
  assumes "relocate_n T (Ptr a i) n (Ptr b j) w = (Inr u, w')"
    and "a \<noteq> b" and "block_len w b = Some m" and "j + n \<le> m"
  shows "same_shape w w'"
    and "c \<noteq> a \<or> k < i \<or> i + n \<le> k \<Longrightarrow> load w' (Ptr c k)
       = (if c = b \<and> j \<le> k \<and> k < j + n then load w (Ptr a (i + (k - j)))
          else load w (Ptr c k))"
proof -
  have "same_shape w w' \<and>
    (\<forall>c k. c \<noteq> a \<or> k < i \<or> i + n \<le> k \<longrightarrow> load w' (Ptr c k)
       = (if c = b \<and> j \<le> k \<and> k < j + n then load w (Ptr a (i + (k - j)))
          else load w (Ptr c k)))"
  proof (cases "is_nothrow_move_constructible T \<or> \<not> is_copy_constructible T")
    case True
    with assms(1) have "uninitialized_move_n T (Ptr a i) n (Ptr b j) w = (Inr u, w')"
      by (simp add: relocate_n_def)
    from uninitialized_move_n_Inr [OF this assms(2-4)] show ?thesis .
  next
    case False
    with assms(1) have "uninitialized_copy_n (Ptr a i) n (Ptr b j) w = (Inr u, w')"
      by (simp add: relocate_n_def)
    from uninitialized_copy_n_Inr [OF this assms(2-4)] show ?thesis by simp
  qed
  then show "same_shape w w'"
    and "c \<noteq> a \<or> k < i \<or> i + n \<le> k \<Longrightarrow> load w' (Ptr c k)
       = (if c = b \<and> j \<le> k \<and> k < j + n then load w (Ptr a (i + (k - j)))
          else load w (Ptr c k))"
    by simp_all
qed

lemma relocate_n_Inl:
  assumes "relocate_n T src n (Ptr b j) w = (Inl e, w')"
    and "is_nothrow_move_constructible T \<or> is_copy_constructible T"
  shows "e = ElemThrow" and "same_shape w w'"
    and "c \<noteq> b \<Longrightarrow> load w' (Ptr c k) = load w (Ptr c k)"
proof -
  have "e = ElemThrow \<and> same_shape w w' \<and>
    (\<forall>c k. c \<noteq> b \<longrightarrow> load w' (Ptr c k) = load w (Ptr c k))"
  proof (cases "is_nothrow_move_constructible T")
    case True
    with assms(1) uninitialized_move_n_nothrow [OF True, of src n "Ptr b j" w]
    show ?thesis by (auto simp: relocate_n_def)
  next
    case False
    with assms have "uninitialized_copy_n src n (Ptr b j) w = (Inl e, w')"
      by (simp add: relocate_n_def)
    from uninitialized_copy_n_Inl [OF this] show ?thesis .
  qed
  then show "e = ElemThrow" and "same_shape w w'"
    and "c \<noteq> b \<Longrightarrow> load w' (Ptr c k) = load w (Ptr c k)"
    by simp_all
qed

lemma relocate_n_quiet:
  "faults w = [] \<Longrightarrow> \<exists>w'. relocate_n T src n d w = (Inr (), w') \<and> faults w' = []"
  using uninitialized_copy_n_quiet [of w src n d] uninitialized_move_n_quiet [of w T src n d]
  by (simp add: relocate_n_def)

lemma relocate_n_zero [simp]: "relocate_n T src 0 d w = (Inr (), w)"
  by (simp add: relocate_n_def)

section \<open>Storage and the class invariant\<close>

lemma wrap_id: "n < 2 ^ 64 \<Longrightarrow> wrap n = n"
  by (simp add: wrap_def)

lemma RawMemory_ctor_Inr:
  assumes "RawMemory_ctor T n w = (Inr m, w')"
    and "0 < n" and "0 < sizeof_T T" and "n * sizeof_T T < 2 ^ 64"
  shows "m = \<lparr>buffer_m = Ptr (length (heap w)) 0, capacity_m = n\<rparr>"
    and "length (heap w') = Suc (length (heap w))"
    and "block_len w' a = (if a = length (heap w) then Some n else block_len w a)"
    and "load w' q = load w q"
proof -
  from assms(1,2) obtain p where
    n: "operator_new T (wrap (n * sizeof_T T)) w = (Inr p, w')" and
    m: "m = \<lparr>buffer_m = p, capacity_m = n\<rparr>"
    by (auto simp: RawMemory_ctor_def Allocate_def split: prod.splits sum.splits)
  have d: "wrap (n * sizeof_T T) div sizeof_T T = n"
    using assms(3,4) by (simp add: wrap_id)
  note n1 = operator_new_Inr [OF n]
  show "m = \<lparr>buffer_m = Ptr (length (heap w)) 0, capacity_m = n\<rparr>"
    using m n1(1) by simp
  show "length (heap w') = Suc (length (heap w))" by (rule n1(2))
  show "block_len w' a = (if a = length (heap w) then Some n else block_len w a)"
    using n1(3) [of a] d by simp
  show "load w' q = load w q" by (rule n1(4))
qed

lemma RawMemory_ctor_Inl:
  assumes "RawMemory_ctor T n w = (Inl e, w')"
  shows "e = BadAlloc" and "same_shape w w'" and "load w' q = load w q"
proof -
  from assms have "operator_new T (wrap (n * sizeof_T T)) w = (Inl e, w')"
    by (auto simp: RawMemory_ctor_def Allocate_def split: prod.splits sum.splits if_splits)
  from operator_new_Inl [OF this]
  show "e = BadAlloc" and "same_shape w w'" and "load w' q = load w q" by simp_all
qed

lemma RawMemory_ctor_quiet:
  assumes "faults w = []"
  shows "\<exists>m w'. RawMemory_ctor T n w = (Inr m, w') \<and> faults w' = []"
  using operator_new_quiet [OF assms, of T "wrap (n * sizeof_T T)"] assms
  by (auto simp: RawMemory_ctor_def Allocate_def)

lemma length_elems [simp]: "length (elems v w) = size_m v"
  by (simp add: elems_def)

lemma nth_elems:
  "k < size_m v \<Longrightarrow> elems v w ! k = load w (ptr_add (buffer_m (data_m v)) (int k))"
  by (simp add: elems_def)

lemma elems_Ptr:
  "buffer_m (data_m v) = Ptr a 0 \<Longrightarrow> elems v w = map (\<lambda>i. load w (Ptr a i)) [0..<size_m v]"
  by (simp add: elems_def)

lemma wf_Null:
  assumes "vector_ok T v w" and "buffer_m (data_m v) = Null"
  shows "capacity_m (data_m v) = 0" and "size_m v = 0"
  using assms by (simp_all add: vector_ok_def)

lemma wf_Ptr:
  assumes "vector_ok T v w" and "buffer_m (data_m v) = Ptr a i"
  shows "i = 0" and "0 < capacity_m (data_m v)"
    and "block_len w a = Some (capacity_m (data_m v))"
    and "a < length (heap w)"
  using assms by (auto simp: vector_ok_def dest: block_len_less)

lemma wf_size:
  assumes "vector_ok T v w"
  shows "size_m v \<le> capacity_m (data_m v)" and "capacity_m (data_m v) * sizeof_T T < 2 ^ 64"
  using assms by (simp_all add: vector_ok_def)

lemma wf_live:
  assumes "vector_ok T v w" and "k < size_m v"
  shows "elems v w ! k \<noteq> None"
  using assms by (simp add: vector_ok_def list_all_length)

lemma wf_capacity_bound:
  assumes "vector_ok T v w" and "0 < sizeof_T T"
  shows "capacity_m (data_m v) < 2 ^ 64"
proof -
  have "capacity_m (data_m v) \<le> capacity_m (data_m v) * sizeof_T T"
    using assms(2) by (cases "sizeof_T T") simp_all
  with wf_size(2) [OF assms(1)] show ?thesis by linarith
qed

lemma wf_Ptr_I:
  assumes "buffer_m (data_m v) = Ptr a 0" and "0 < capacity_m (data_m v)"
    and "block_len w a = Some (capacity_m (data_m v))"
    and "size_m v \<le> capacity_m (data_m v)"
    and "capacity_m (data_m v) * sizeof_T T < 2 ^ 64"
    and "\<And>k. k < size_m v \<Longrightarrow> load w (Ptr a k) \<noteq> None"
  shows "vector_ok T v w"
  using assms by (simp add: vector_ok_def elems_Ptr list_all_length)

lemma wf_Vector_default [simp]: "vector_ok T Vector_default w"
  by (simp add: vector_ok_def Vector_default_def RawMemory_default_def elems_def)

text \<open>A well-formed vector is unchanged by a change of the world outside its block.\<close>

lemma wf_frame:
  assumes "vector_ok T v w"
    and "\<And>a i. buffer_m (data_m v) = Ptr a i \<Longrightarrow> block_len w' a = block_len w a"
    and "\<And>a i k. buffer_m (data_m v) = Ptr a i \<Longrightarrow> load w' (Ptr a k) = load w (Ptr a k)"
  shows "vector_ok T v w'" and "elems v w' = elems v w"
proof -
  show e: "elems v w' = elems v w"
  proof (cases "buffer_m (data_m v)")
    case Null
    then show ?thesis by (simp add: elems_def)
  next
    case (Ptr a i)
    with assms(3) show ?thesis by (simp add: elems_def ptr_add.simps)
  qed
  show "vector_ok T v w'"
    using assms(1,2) unfolding vector_ok_def e by (auto split: ptr.splits)
qed

section \<open>Reserve\<close>

lemma Reserve_noop: "n \<le> Capacity v \<Longrightarrow> Reserve T n v w = (Inr (), v, w)"
  by (simp add: Reserve_def Capacity_def)

lemma Reserve_Inr:
  assumes wf: "vector_ok T v w" and T: "0 < sizeof_T T"
    and n: "Capacity v < n" "n * sizeof_T T < 2 ^ 64"
    and r: "Reserve T n v w = (Inr u, v', w')"
  shows "v' = v\<lparr>data_m := \<lparr>buffer_m = Ptr (length (heap w)) 0, capacity_m = n\<rparr>\<rparr>"
    and "elems v' w' = elems v w"
    and "vector_ok T v' w'"
proof -
  let ?b = "length (heap w)"
  from r n(1) obtain new_data w1 w2 where
    c: "RawMemory_ctor T n w = (Inr new_data, w1)" and
    l: "relocate_n T (buffer_m (data_m v)) (size_m v) (buffer_m new_data) w1 = (Inr (), w2)" and
    v': "v' = v\<lparr>data_m := (data_m v)\<lparr>buffer_m := buffer_m new_data,
                                     capacity_m := capacity_m new_data\<rparr>\<rparr>" and
    w': "w' = operator_delete (buffer_m (data_m v))
               (destroy_n (buffer_m (data_m v)) (size_m v) w2)"
    by (auto simp: Reserve_def Capacity_def RawMemory_Capacity_def GetAddress_def
        RawMemory_Swap_def RawMemory_dtor_def Deallocate_def
        split: prod.splits sum.splits if_splits)
  have n0: "0 < n" using n(1) by simp
  note c1 = RawMemory_ctor_Inr [OF c n0 T n(2)]
  show v'_eq: "v' = v\<lparr>data_m := \<lparr>buffer_m = Ptr ?b 0, capacity_m = n\<rparr>\<rparr>"
    unfolding v' c1(1) by simp
  have sz: "size_m v \<le> n"
    using wf_size(1) [OF wf] n(1) by (simp add: Capacity_def RawMemory_Capacity_def)
  have bl1: "block_len w1 ?b = Some n" by (simp add: c1(3))
  have new: "block_len w' ?b = Some n \<and> (\<forall>k<size_m v. load w' (Ptr ?b k) = elems v w ! k)"
  proof (cases "buffer_m (data_m v)")
    case Null
    with wf_Null [OF wf] l w' have "w' = w1" by simp
    with Null wf_Null [OF wf] bl1 show ?thesis by simp
  next
    case (Ptr a i)
    note p = wf_Ptr [OF wf Ptr]
    have ab: "a \<noteq> ?b" using p(4) by simp
    from l have l': "relocate_n T (Ptr a 0) (size_m v) (Ptr ?b 0) w1 = (Inr (), w2)"
      by (simp add: Ptr p(1) c1(1))
    note l1 = relocate_n_Inr [OF l' ab bl1]
    have s2: "same_shape w1 w2" using sz by (intro l1(1)) simp
    have "block_len w' ?b = Some n"
      unfolding w' Ptr
      using ab bl1 same_shape_block_len [OF s2]
      by (simp add: block_len_operator_delete same_shape_def)
    moreover have "load w' (Ptr ?b k) = elems v w ! k" if "k < size_m v" for k
    proof -
      have "load w' (Ptr ?b k) = load w2 (Ptr ?b k)"
        unfolding w' Ptr using ab by (simp add: load_operator_delete load_destroy_n)
      also have "\<dots> = load w1 (Ptr a k)"
        using l1(2) [of ?b k] ab that sz by simp
      also have "\<dots> = load w (Ptr a k)" by (rule c1(4))
      finally show ?thesis using that by (simp add: nth_elems Ptr p(1))
    qed
    ultimately show ?thesis by blast
  qed
  show e: "elems v' w' = elems v w"
    using new by (intro nth_equalityI) (simp_all add: v'_eq nth_elems)
  show "vector_ok T v' w'"
  proof (rule wf_Ptr_I [where a = ?b])
    show "buffer_m (data_m v') = Ptr ?b 0" by (simp add: v'_eq)
    show "0 < capacity_m (data_m v')" using n0 by (simp add: v'_eq)
    show "block_len w' ?b = Some (capacity_m (data_m v'))" using new by (simp add: v'_eq)
    show "size_m v' \<le> capacity_m (data_m v')" using sz by (simp add: v'_eq)
    show "capacity_m (data_m v') * sizeof_T T < 2 ^ 64" using n(2) by (simp add: v'_eq)
    show "load w' (Ptr ?b k) \<noteq> None" if "k < size_m v'" for k
      using that new wf_live [OF wf, of k] by (simp add: v'_eq)
  qed
qed

section \<open>Running the model on concrete inputs\<close>

lemma destroy_n_numeral:
  "destroy_n p (numeral k) w = destroy_n (ptr_add p 1) (pred_numeral k) (destroy_at p w)"
  by (simp add: numeral_eq_Suc)

lemma uninitialized_copy_n_numeral:
  "uninitialized_copy_n first (numeral k) d w =
     (case copy_construct_at d first w of
        (Inl e, w1) \<Rightarrow> (Inl e, w1)
      | (Inr u, w1) \<Rightarrow>
          (case uninitialized_copy_n (ptr_add first 1) (pred_numeral k) (ptr_add d 1) w1 of
             (Inl e, w2) \<Rightarrow> (Inl e, destroy_at d w2)
           | (Inr u, w2) \<Rightarrow> (Inr (), w2)))"
  by (simp add: numeral_eq_Suc)

lemma uninitialized_move_n_numeral:
  "uninitialized_move_n T first (numeral k) d w =
     (case move_construct_at T d first w of
        (Inl e, w1) \<Rightarrow> (Inl e, w1)
      | (Inr u, w1) \<Rightarrow>
          (case uninitialized_move_n T (ptr_add first 1) (pred_numeral k) (ptr_add d 1) w1 of
             (Inl e, w2) \<Rightarrow> (Inl e, destroy_at d w2)
           | (Inr u, w2) \<Rightarrow> (Inr (), w2)))"
  by (simp add: numeral_eq_Suc)

lemma uninitialized_value_construct_n_numeral:
  "uninitialized_value_construct_n T p (numeral k) w =
     (case value_construct_at T p w of
        (Inl e, w1) \<Rightarrow> (Inl e, w1)
      | (Inr u, w1) \<Rightarrow>
          (case uninitialized_value_construct_n T (ptr_add p 1) (pred_numeral k) w1 of
             (Inl e, w2) \<Rightarrow> (Inl e, destroy_at p w2)
           | (Inr u, w2) \<Rightarrow> (Inr (), w2)))"
  by (simp add: numeral_eq_Suc)

lemma move_n_numeral:
  "move_n T first (numeral k) d w =
     (case move_assign_elem T d first w of
        (Inl e, w1) \<Rightarrow> (Inl e, w1)
      | (Inr u, w1) \<Rightarrow> move_n T (ptr_add first 1) (pred_numeral k) (ptr_add d 1) w1)"
  by (simp add: numeral_eq_Suc)

lemma move_backward_n_numeral:
  "move_backward_n T first (numeral k) d_last w =
     (case move_assign_elem T (ptr_add d_last (- 1)) (ptr_add first (int (pred_numeral k))) w of
        (Inl e, w1) \<Rightarrow> (Inl e, w1)
      | (Inr u, w1) \<Rightarrow> move_backward_n T first (pred_numeral k) (ptr_add d_last (- 1)) w1)"
  by (simp add: numeral_eq_Suc)

lemma copy_assign_loop_numeral:
  "copy_assign_loop v rhs i (numeral k) w =
     (case RawMemory_index (data_m v) i of
        Inl e \<Rightarrow> (Inl e, w)
      | Inr d \<Rightarrow>
          (case Vector_index rhs i of
             Inl e \<Rightarrow> (Inl e, w)
           | Inr s \<Rightarrow>
               (case copy_assign_elem d s w of
                  (Inl e, w1) \<Rightarrow> (Inl e, w1)
                | (Inr u, w1) \<Rightarrow> copy_assign_loop v rhs (i + 1) (pred_numeral k) w1)))"
  by (simp add: numeral_eq_Suc)

lemma replicate_numeral_unfold: "replicate (numeral k) x = x # replicate (pred_numeral k) x"
  by (simp add: numeral_eq_Suc)

lemma list_update_numeral_unfold:
  "(x # xs)[numeral k := y] = x # xs[pred_numeral k := y]"
  by (simp add: numeral_eq_Suc)

lemma upt_zero_numeral: "[0..<numeral k] = 0 # [Suc 0..<numeral k]"
  by (simp add: upt_rec [of 0])

lemma upt_Suc_numeral:
  "[Suc i..<numeral k] = (if Suc i < numeral k then Suc i # [Suc (Suc i)..<numeral k] else [])"
  by (simp add: upt_rec [of "Suc i"])

lemmas run_defs =
  Reserve_def Resize_def EmplaceShared_def EmplaceShared_relocate_def
  EmplaceShared_inplace_def EmplaceShared_shift_def Emplace_def Insert_def
  EmplaceBack_def PushBack_def PopBack_def Erase_def
  Vector_copy_assign_def copy_assign_inplace_def Vector_copy_ctor_def Vector_dtor_def
  Vector_Swap_def Vector_index_def Vector_default_def RawMemory_default_def
  relocate_n_def std_move_def std_move_backward_def
  RawMemory_ctor_def RawMemory_dtor_def RawMemory_index_def RawMemory_Swap_def
  RawMemory_Capacity_def GetAddress_def Allocate_def Deallocate_def
  Capacity_def Size_def begin_it_def end_it_def cbegin_def cend_def
  operator_new_def may_throw_def
  construct_at_def construct_temp_def value_construct_at_def copy_construct_at_def
  move_construct_at_def assign_slot_def copy_assign_elem_def move_assign_elem_def
  move_assign_temp_def
  destroy_at_def distance_def wrap_def
  vector_ok_def elems_def iter_def block_len_def
  load.simps store.simps ptr_add.simps operator_delete.simps
  destroy_n_numeral uninitialized_copy_n_numeral uninitialized_move_n_numeral
  uninitialized_value_construct_n_numeral move_n_numeral move_backward_n_numeral
  copy_assign_loop_numeral replicate_numeral_unfold list_update_numeral_unfold
  upt_zero_numeral upt_Suc_numeral

lemma Reserve_Inl:
  assumes wf: "vector_ok T v w" and T: "0 < sizeof_T T"
    and tr: "is_nothrow_move_constructible T \<or> is_copy_constructible T"
    and n: "n * sizeof_T T < 2 ^ 64"
    and r: "Reserve T n v w = (Inl e, v', w')"
  shows "v' = v" and "elems v w' = elems v w" and "vector_ok T v w'"
    and "e = BadAlloc \<or> e = ElemThrow"
proof -
  let ?b = "length (heap w)"
  from r have n0: "0 < n" and cap: "Capacity v < n"
    by (auto simp: Reserve_def Capacity_def split: if_splits)
  show "v' = v"
    using r by (auto simp: Reserve_def split: prod.splits sum.splits if_splits)
  have "vector_ok T v w' \<and> elems v w' = elems v w \<and> (e = BadAlloc \<or> e = ElemThrow)"
  proof (cases "RawMemory_ctor T n w")
    case (Pair res w1)
    show ?thesis
    proof (cases res)
      case (Inl e1)
      with Pair r cap have c: "RawMemory_ctor T n w = (Inl e, w')"
        by (simp add: Reserve_def Capacity_def)
      note c1 = RawMemory_ctor_Inl [OF c]
      from wf_frame [OF wf, of w'] c1 show ?thesis
        by (simp add: same_shape_block_len)
    next
      case (Inr new_data)
      with Pair have c: "RawMemory_ctor T n w = (Inr new_data, w1)" by simp
      note c1 = RawMemory_ctor_Inr [OF c n0 T n]
      from r cap c obtain w2 where
        l: "relocate_n T (buffer_m (data_m v)) (size_m v) (Ptr ?b 0) w1 = (Inl e, w2)" and
        w': "w' = operator_delete (Ptr ?b 0) w2"
        by (auto simp: Reserve_def Capacity_def GetAddress_def RawMemory_dtor_def
            Deallocate_def c1(1) split: prod.splits sum.splits)
      note l1 = relocate_n_Inl [OF l tr]
      have "block_len w' a = block_len w a" if "buffer_m (data_m v) = Ptr a i" for a i
        using wf_Ptr(4) [OF wf that] same_shape_block_len [OF l1(2)]
        by (simp add: w' block_len_operator_delete c1(3))
      moreover have "load w' (Ptr a k) = load w (Ptr a k)"
        if "buffer_m (data_m v) = Ptr a i" for a i k
        using wf_Ptr(4) [OF wf that] l1(3) [of a k]
        by (simp add: w' load_operator_delete c1(4))
      ultimately show ?thesis
        using wf_frame [OF wf, of w'] l1(1) by blast
    qed
  qed
  then show "elems v w' = elems v w" and "vector_ok T v w'" and "e = BadAlloc \<or> e = ElemThrow"
    by simp_all
qed

lemma Reserve_quiet:
  assumes "faults w = []"
  shows "\<exists>v' w'. Reserve T n v w = (Inr (), v', w') \<and> faults w' = []"
proof (cases "n \<le> Capacity v")
  case True
  with assms show ?thesis by (simp add: Reserve_noop)
next
  case False
  from RawMemory_ctor_quiet [OF assms, of T n] obtain m w1 where
    c: "RawMemory_ctor T n w = (Inr m, w1)" and f1: "faults w1 = []" by blast
  from relocate_n_quiet [OF f1, of T "GetAddress (data_m v)" "size_m v" "GetAddress m"]
  obtain w2 where
    l: "relocate_n T (GetAddress (data_m v)) (size_m v) (GetAddress m) w1 = (Inr (), w2)"
    and f2: "faults w2 = []" by blast
  from False c l f2 show ?thesis
    by (simp add: Reserve_def Capacity_def RawMemory_Swap_def RawMemory_dtor_def
        Deallocate_def)
qed

text \<open>
  The byte size of a request is the product \<^verbatim>\<open>n * sizeof(T)\<close> in \<^verbatim>\<open>size_t\<close>, which wraps;
  no count of elements is compared with a maximum anywhere in the class. With elements
  of 32 bytes, \<open>2 ^ 59 + 1\<close> elements are \<open>2 ^ 64 + 32\<close> bytes, which is 32 in \<^verbatim>\<open>size_t\<close>: the
  block acquired has room for one element.
\<close>

lemma Reserve_overflow_example:
  "Reserve T_copyable (2 ^ 59 + 1) v123 (w123 []) =
     (Inr (), \<lparr>data_m = \<lparr>buffer_m = Ptr 1 0, capacity_m = 2 ^ 59 + 1\<rparr>, size_m = 3\<rparr>,
      \<lparr>heap = [None, Some [Some 1]], faults = []\<rparr>)"
  by (simp add: run_defs T_copyable_def v123_def w123_def)

text \<open>
  C3 (as stated). The claim is that for every vector \<^verbatim>\<open>Reserve(n)\<close> with \<open>n\<close> above the
  capacity preserves every element in storage sized exactly \<open>n\<close>. On the vector 1, 2, 3 of
  32-byte elements \<^verbatim>\<open>Reserve(2 ^ 59 + 1)\<close> returns with capacity \<open>2 ^ 59 + 1\<close> over a block
  of one slot: the first element is kept, the second and the third are not.
\<close>

theorem Reserve_counterexample:
  "vector_ok T_copyable v123 (w123 [])
    \<and> elems v123 (w123 []) = [Some 1, Some 2, Some 3]
    \<and> Capacity v123 < 2 ^ 59 + 1
    \<and> Reserve T_copyable (2 ^ 59 + 1) v123 (w123 []) =
        (Inr (), \<lparr>data_m = \<lparr>buffer_m = Ptr 1 0, capacity_m = 2 ^ 59 + 1\<rparr>, size_m = 3\<rparr>,
         \<lparr>heap = [None, Some [Some 1]], faults = []\<rparr>)
    \<and> block_len \<lparr>heap = [None, Some [Some (1 :: int)]], faults = []\<rparr> 1 = Some 1
    \<and> elems \<lparr>data_m = \<lparr>buffer_m = Ptr 1 0, capacity_m = 2 ^ 59 + 1\<rparr>, size_m = 3\<rparr>
         \<lparr>heap = [None, Some [Some 1]], faults = []\<rparr> = [Some (1 :: int), None, None]"
proof -
  have "vector_ok T_copyable v123 (w123 [])"
    "elems v123 (w123 []) = [Some 1, Some 2, Some 3]"
    "Capacity v123 < 2 ^ 59 + 1"
    "block_len \<lparr>heap = [None, Some [Some (1 :: int)]], faults = []\<rparr> 1 = Some 1"
    "elems \<lparr>data_m = \<lparr>buffer_m = Ptr 1 0, capacity_m = 2 ^ 59 + 1\<rparr>, size_m = 3\<rparr>
         \<lparr>heap = [None, Some [Some 1]], faults = []\<rparr> = [Some (1 :: int), None, None]"
    by (simp_all add: run_defs T_copyable_def v123_def w123_def)
  with Reserve_overflow_example show ?thesis by simp
qed

text \<open>
  C3 (amended). For a well-formed vector: \<^verbatim>\<open>Reserve(n)\<close> with \<open>n\<close> at most the capacity
  returns with the vector and the world as they were. With \<open>n\<close> above the capacity and
  a byte size \<^verbatim>\<open>n * sizeof(T)\<close> that fits \<^verbatim>\<open>size_t\<close>, a call that returns leaves a vector
  of capacity exactly \<open>n\<close>, of the same size and with the same elements in the same
  order, again well-formed, so in a block of \<open>n\<close> slots. When nothing throws the call
  returns.
\<close>

theorem Reserve_spec:
  assumes "vector_ok T v w" and "0 < sizeof_T T"
    and "Capacity v < n \<longrightarrow> n * sizeof_T T < 2 ^ 64"
  shows "(n \<le> Capacity v \<longrightarrow> Reserve T n v w = (Inr (), v, w))
    \<and> (Capacity v < n \<longrightarrow>
         (\<forall>u v' w'. Reserve T n v w = (Inr u, v', w') \<longrightarrow>
            Capacity v' = n \<and> size_m v' = size_m v \<and> elems v' w' = elems v w
            \<and> vector_ok T v' w'))
    \<and> (faults w = [] \<longrightarrow> (\<exists>v' w'. Reserve T n v w = (Inr (), v', w')))"
proof (intro conjI impI allI)
  assume "n \<le> Capacity v"
  then show "Reserve T n v w = (Inr (), v, w)" by (rule Reserve_noop)
next
  fix u v' w'
  assume c: "Capacity v < n" and r: "Reserve T n v w = (Inr u, v', w')"
  from c assms(3) have b: "n * sizeof_T T < 2 ^ 64" by simp
  note r1 = Reserve_Inr [OF assms(1,2) c b r]
  show "Capacity v' = n" by (simp add: r1(1) Capacity_def RawMemory_Capacity_def)
  show "size_m v' = size_m v" by (simp add: r1(1))
  show "elems v' w' = elems v w" by (rule r1(2))
  show "vector_ok T v' w'" by (rule r1(3))
next
  assume "faults w = []"
  from Reserve_quiet [OF this, of T n v]
  show "\<exists>v' w'. Reserve T n v w = (Inr (), v', w')" by blast
qed

lemma Reserve_example:
  "Reserve T_copyable 10 v123 (w123 []) =
     (Inr (), \<lparr>data_m = \<lparr>buffer_m = Ptr 1 0, capacity_m = 10\<rparr>, size_m = 3\<rparr>,
      \<lparr>heap = [None, Some [Some 1, Some 2, Some 3, None, None, None, None, None, None, None]],
       faults = []\<rparr>)"
  by (simp add: run_defs T_copyable_def v123_def w123_def)

theorem Reserve_spec_witness:
  "vector_ok T_copyable v123 (w123 []) \<and> 0 < sizeof_T T_copyable
    \<and> 10 * sizeof_T T_copyable < (2::nat) ^ 64 \<and> Capacity v123 < 10
    \<and> faults (w123 []) = []
    \<and> elems v123 (w123 []) = [Some 1, Some 2, Some 3]
    \<and> (\<exists>v' w'. Reserve T_copyable 10 v123 (w123 []) = (Inr (), v', w')
         \<and> Capacity v' = 10 \<and> size_m v' = 3 \<and> elems v' w' = [Some 1, Some 2, Some 3])
    \<and> (4 :: nat) \<le> Capacity v123
    \<and> Reserve T_copyable 4 v123 (w123 []) = (Inr (), v123, w123 [])"
proof -
  have h: "vector_ok T_copyable v123 (w123 [])" "0 < sizeof_T T_copyable"
    by (simp_all add: run_defs T_copyable_def v123_def w123_def)
  have b: "10 * sizeof_T T_copyable < (2::nat) ^ 64" by (simp add: T_copyable_def)
  then have b10: "Capacity v123 < 10 \<longrightarrow> 10 * sizeof_T T_copyable < 2 ^ 64" by simp
  have c: "Capacity v123 < 10" "4 \<le> Capacity v123"
    by (simp_all add: Capacity_def RawMemory_Capacity_def v123_def)
  then have b4: "Capacity v123 < 4 \<longrightarrow> 4 * sizeof_T T_copyable < 2 ^ 64" by simp
  have e: "elems v123 (w123 []) = [Some 1, Some 2, Some 3]"
    by (simp add: run_defs v123_def w123_def)
  have s: "size_m v123 = 3" by (simp add: v123_def)
  have f: "faults (w123 []) = []" by (simp add: w123_def)
  from Reserve_spec [OF h b10] c(1)
  have "\<forall>u v' w'. Reserve T_copyable 10 v123 (w123 []) = (Inr u, v', w') \<longrightarrow>
            Capacity v' = 10 \<and> size_m v' = size_m v123
            \<and> elems v' w' = elems v123 (w123 [])"
    by blast
  with Reserve_example e s
  have x: "\<exists>v' w'. Reserve T_copyable 10 v123 (w123 []) = (Inr (), v', w')
         \<and> Capacity v' = 10 \<and> size_m v' = 3 \<and> elems v' w' = [Some 1, Some 2, Some 3]"
    by metis
  from Reserve_spec [OF h b4] c(2)
  have y: "Reserve T_copyable 4 v123 (w123 []) = (Inr (), v123, w123 [])" by blast
  from h b c e f x y show ?thesis by blast
qed

section \<open>Shifting elements inside one block\<close>

lemma uninitialized_copy_n_frame:
  assumes "uninitialized_copy_n src n (Ptr b j) w = (r, w')"
  shows "same_shape w w' \<and> (\<forall>c k. c \<noteq> b \<longrightarrow> load w' (Ptr c k) = load w (Ptr c k))"
proof (cases r)
  case (Inl e)
  with assms uninitialized_copy_n_Inl [of src n b j w e w'] show ?thesis by simp
next
  case (Inr u)
  with assms have "uninitialized_copy_n src n (Ptr b j) w = (Inr u, w')" by simp
  then show ?thesis
  proof (induction n arbitrary: src j w)
    case 0
    then show ?case by simp
  next
    case (Suc n)
    from Suc.prems obtain w1 where
      c: "copy_construct_at (Ptr b j) src w = (Inr (), w1)" and
      r: "uninitialized_copy_n (ptr_add src 1) n (Ptr b (Suc j)) w1 = (Inr u, w')"
      by (auto split: prod.splits sum.splits)
    note c1 = copy_construct_at_Inr [OF c]
    from Suc.IH [OF r] have ih: "same_shape w1 w'"
      "\<And>c k. c \<noteq> b \<Longrightarrow> load w' (Ptr c k) = load w1 (Ptr c k)" by simp_all
    have "same_shape w w'" using c1(1) ih(1) by (rule same_shape_trans)
    moreover have "load w' (Ptr c k) = load w (Ptr c k)" if "c \<noteq> b" for c k
      using that by (simp add: ih(2) c1(2))
    ultimately show ?case by blast
  qed
qed

lemma move_n_Inr:
  assumes "move_n T (Ptr a (Suc i)) n (Ptr a i) w = (Inr u, w')"
  shows "same_shape w w' \<and>
    (\<forall>c k. load w' (Ptr c k)
       = (if c = a \<and> i \<le> k \<and> k < i + n
          then (if load w (Ptr a k) = None then None else load w (Ptr a (Suc k)))
          else if c = a \<and> k = i + n \<and> 0 < n
               then map_option (moved_from T) (load w (Ptr a k))
          else load w (Ptr c k)))"
  using assms
proof (induction n arbitrary: i w)
  case 0
  then show ?case by auto
next
  case (Suc n)
  from Suc.prems(1) obtain w1 where
    c: "move_assign_elem T (Ptr a i) (Ptr a (Suc i)) w = (Inr (), w1)" and
    r: "move_n T (Ptr a (Suc (Suc i))) n (Ptr a (Suc i)) w1 = (Inr u, w')"
    by (auto split: prod.splits sum.splits)
  have ne: "Ptr a i \<noteq> Ptr a (Suc i)" by simp
  note c1 = move_assign_elem_Inr [OF c ne]
  from Suc.IH [OF r]
  have ih: "same_shape w1 w'"
    "\<And>c k. load w' (Ptr c k)
       = (if c = a \<and> Suc i \<le> k \<and> k < Suc i + n
          then (if load w1 (Ptr a k) = None then None else load w1 (Ptr a (Suc k)))
          else if c = a \<and> k = Suc i + n \<and> 0 < n
               then map_option (moved_from T) (load w1 (Ptr a k))
          else load w1 (Ptr c k))"
    by simp_all
  have "same_shape w w'" using c1(1) ih(1) by (rule same_shape_trans)
  moreover have "load w' (Ptr c k)
       = (if c = a \<and> i \<le> k \<and> k < i + Suc n
          then (if load w (Ptr a k) = None then None else load w (Ptr a (Suc k)))
          else if c = a \<and> k = i + Suc n \<and> 0 < Suc n
               then map_option (moved_from T) (load w (Ptr a k))
          else load w (Ptr c k))" for c k
    by (auto simp: ih(2) c1(2))
  ultimately show ?case by blast
qed

lemma move_n_quiet:
  "faults w = [] \<Longrightarrow> \<exists>w'. move_n T first n d w = (Inr (), w') \<and> faults w' = []"
proof (induction n arbitrary: first d w)
  case 0
  then show ?case by simp
next
  case (Suc n)
  from move_assign_elem_quiet [OF Suc.prems, of T d first] obtain w1 where
    c: "move_assign_elem T d first w = (Inr (), w1)" and f: "faults w1 = []" by blast
  from Suc.IH [OF f, of "ptr_add first 1" "ptr_add d 1"] c show ?case by auto
qed

lemma move_n_Inl:
  "move_n T first n d w = (Inl e, w') \<Longrightarrow> e = ElemThrow"
proof (induction n arbitrary: first d w)
  case 0
  then show ?case by simp
next
  case (Suc n)
  then show ?case
    by (auto simp: move_assign_elem_def may_throw_def
        split: prod.splits sum.splits list.splits bool.splits)
qed

lemma move_backward_n_Inr:
  assumes "move_backward_n T (Ptr a i) n (Ptr a (Suc (i + n))) w = (Inr u, w')"
    and "\<forall>k. i < k \<and> k \<le> i + n \<longrightarrow> load w (Ptr a k) \<noteq> None"
  shows "same_shape w w' \<and>
    (\<forall>c k. load w' (Ptr c k)
       = (if c = a \<and> i < k \<and> k \<le> i + n then load w (Ptr a (k - 1))
          else if c = a \<and> k = i \<and> 0 < n
               then map_option (moved_from T) (load w (Ptr a k))
          else load w (Ptr c k)))"
  using assms
proof (induction n arbitrary: w)
  case 0
  then show ?case by auto
next
  case (Suc n)
  from Suc.prems(1) obtain w1 where
    c: "move_assign_elem T (Ptr a (Suc (i + n))) (Ptr a (i + n)) w = (Inr (), w1)" and
    r: "move_backward_n T (Ptr a i) n (Ptr a (Suc (i + n))) w1 = (Inr u, w')"
    by (auto split: prod.splits sum.splits)
  have ne: "Ptr a (Suc (i + n)) \<noteq> Ptr a (i + n)" by simp
  note c1 = move_assign_elem_Inr [OF c ne]
  have lv: "load w (Ptr a (Suc (i + n))) \<noteq> None" using Suc.prems(2) by simp
  have lv1: "\<forall>k. i < k \<and> k \<le> i + n \<longrightarrow> load w1 (Ptr a k) \<noteq> None"
    using Suc.prems(2) by (auto simp: c1(2))
  from Suc.IH [OF r lv1]
  have ih: "same_shape w1 w'"
    "\<And>c k. load w' (Ptr c k)
       = (if c = a \<and> i < k \<and> k \<le> i + n then load w1 (Ptr a (k - 1))
          else if c = a \<and> k = i \<and> 0 < n
               then map_option (moved_from T) (load w1 (Ptr a k))
          else load w1 (Ptr c k))"
    by simp_all
  have "same_shape w w'" using c1(1) ih(1) by (rule same_shape_trans)
  moreover have "load w' (Ptr c k)
       = (if c = a \<and> i < k \<and> k \<le> i + Suc n then load w (Ptr a (k - 1))
          else if c = a \<and> k = i \<and> 0 < Suc n
               then map_option (moved_from T) (load w (Ptr a k))
          else load w (Ptr c k))" for c k
  proof -
    have ar: "k - 1 = i + n \<longleftrightarrow> k = Suc (i + n)" if "i < k"
      using that by arith
    have ar2: "k - 1 \<noteq> Suc (i + n)" if "k \<le> i + n"
      using that by arith
    show ?thesis
      using lv ar ar2 by (auto simp: ih(2) c1(2))
  qed
  ultimately show ?case by blast
qed

lemma move_backward_n_quiet:
  "faults w = [] \<Longrightarrow> \<exists>w'. move_backward_n T first n d w = (Inr (), w') \<and> faults w' = []"
proof (induction n arbitrary: d w)
  case 0
  then show ?case by simp
next
  case (Suc n)
  from move_assign_elem_quiet [OF Suc.prems, of T "ptr_add d (- 1)" "ptr_add first (int n)"]
  obtain w1 where
    c: "move_assign_elem T (ptr_add d (- 1)) (ptr_add first (int n)) w = (Inr (), w1)"
    and f: "faults w1 = []" by blast
  from Suc.IH [OF f, of "ptr_add d (- 1)"] c show ?case by auto
qed

lemma uninitialized_value_construct_n_Inr:
  assumes "uninitialized_value_construct_n T (Ptr a i) n w = (Inr u, w')"
    and "block_len w a = Some m" and "i + n \<le> m"
  shows "same_shape w w' \<and>
    (\<forall>c k. load w' (Ptr c k)
       = (if c = a \<and> i \<le> k \<and> k < i + n then Some (value_init T) else load w (Ptr c k)))"
  using assms
proof (induction n arbitrary: i w)
  case 0
  then show ?case by auto
next
  case (Suc n)
  from Suc.prems(1) obtain w1 where
    c: "value_construct_at T (Ptr a i) w = (Inr (), w1)" and
    r: "uninitialized_value_construct_n T (Ptr a (Suc i)) n w1 = (Inr u, w')"
    by (auto split: prod.splits sum.splits)
  note c1 = value_construct_at_Inr [OF c]
  have bl: "block_len w1 a = Some m"
    using c1(1) Suc.prems(2) by (simp add: same_shape_block_len)
  have vi: "valid w (Ptr a i)" using Suc.prems(2,3) by simp
  from Suc.IH [OF r bl] Suc.prems(3)
  have ih: "same_shape w1 w'"
    "\<And>c k. load w' (Ptr c k)
       = (if c = a \<and> Suc i \<le> k \<and> k < Suc i + n then Some (value_init T)
          else load w1 (Ptr c k))"
    by simp_all
  have "same_shape w w'" using c1(1) ih(1) by (rule same_shape_trans)
  moreover have "load w' (Ptr c k)
       = (if c = a \<and> i \<le> k \<and> k < i + Suc n then Some (value_init T)
          else load w (Ptr c k))" for c k
    using vi by (auto simp: ih(2) c1(2))
  ultimately show ?case by blast
qed

lemma uninitialized_value_construct_n_quiet:
  "faults w = [] \<Longrightarrow>
     \<exists>w'. uninitialized_value_construct_n T p n w = (Inr (), w') \<and> faults w' = []"
proof (induction n arbitrary: p w)
  case 0
  then show ?case by simp
next
  case (Suc n)
  from value_construct_at_quiet [OF Suc.prems, of T p] obtain w1 where
    c: "value_construct_at T p w = (Inr (), w1)" and f: "faults w1 = []" by blast
  from Suc.IH [OF f, of "ptr_add p 1"] c show ?case by auto
qed

section \<open>Iterators\<close>

lemma iter_Null:
  assumes "vector_ok T v w" and "buffer_m (data_m v) = Null"
  shows "iter v i = Null"
  using assms by (simp add: iter_def)

lemma iter_Ptr:
  assumes "vector_ok T v w" and "buffer_m (data_m v) = Ptr a j"
  shows "iter v i = Ptr a i"
  using wf_Ptr(1,2) [OF assms] assms(2)
  by (simp add: iter_def Capacity_def RawMemory_Capacity_def)

lemma begin_it_ok:
  assumes "vector_ok T v w"
  shows "begin_it v = Inr (iter v 0)" and "cbegin v = Inr (iter v 0)"
  by (simp_all add: cbegin_def begin_it_def iter_def RawMemory_index_def)

lemma end_it_ok:
  assumes "vector_ok T v w"
  shows "end_it v = Inr (iter v (size_m v))" and "cend v = Inr (iter v (size_m v))"
  using wf_size(1) [OF assms]
  by (simp_all add: cend_def end_it_def iter_def RawMemory_index_def)

section \<open>EmplaceShared\<close>

lemma ptr_add_zero [simp]: "ptr_add p 0 = p"
  by (cases p) (simp_all add: ptr_add.simps)

lemma nat_int_diff [simp]: "nat (int a - int b) = a - b"
  by arith

lemma elems_nth_iter:
  assumes "vector_ok T v w" and "k < size_m v"
  shows "elems v w' ! k = load w' (iter v k)"
proof (cases "buffer_m (data_m v)")
  case Null
  with wf_Null [OF assms(1)] assms(2) show ?thesis by simp
next
  case (Ptr a j)
  with wf_Ptr(1) [OF assms(1) Ptr] iter_Ptr [OF assms(1) Ptr] assms(2)
  show ?thesis by (simp add: nth_elems)
qed

lemma EmplaceShared_relocate_Ptr:
  assumes ok: "vector_ok T v w0" and p: "buffer_m (data_m v) = Ptr a j" and i: "i \<le> size_m v"
  shows "EmplaceShared_relocate T (Ptr a i) x v \<lparr>buffer_m = Ptr b 0, capacity_m = N\<rparr> w =
     (case construct_at (Ptr b i) x w of
        (Inl e, w1) \<Rightarrow> (Inl e, w1)
      | (Inr u, w1) \<Rightarrow>
          (case relocate_n T (Ptr a 0) i (Ptr b 0) w1 of
             (Inl e, w2) \<Rightarrow> (Inl e, destroy_at (Ptr b i) w2)
           | (Inr u, w2) \<Rightarrow>
               (case relocate_n T (Ptr a i) (size_m v - i) (Ptr b (Suc i)) w2 of
                  (Inl e, w3) \<Rightarrow> (Inl e, destroy_at (Ptr b i) (destroy_n (Ptr b 0) i w3))
                | (Inr u, w3) \<Rightarrow> (Inr (Ptr b i), w3))))"
  by (simp add: EmplaceShared_relocate_def begin_it_ok [OF ok] end_it_ok [OF ok]
      iter_Ptr [OF ok p] GetAddress_def Let_def cong: sum.case_cong prod.case_cong)

lemma EmplaceShared_relocate_Null:
  assumes ok: "vector_ok T v w0" and p: "buffer_m (data_m v) = Null"
  shows "EmplaceShared_relocate T Null x v \<lparr>buffer_m = Ptr b 0, capacity_m = N\<rparr> w =
     (case construct_at (Ptr b 0) x w of
        (Inl e, w1) \<Rightarrow> (Inl e, w1)
      | (Inr u, w1) \<Rightarrow> (Inr (Ptr b 0), w1))"
  using wf_Null [OF ok p]
  by (simp add: EmplaceShared_relocate_def begin_it_ok [OF ok] end_it_ok [OF ok]
      iter_Null [OF ok p] GetAddress_def Let_def cong: sum.case_cong prod.case_cong
      split: prod.splits sum.splits)

text \<open>The first branch: the new storage after the three constructions.\<close>

lemma EmplaceShared_relocate_Inr:
  assumes ok: "vector_ok T v w0" and i: "i \<le> size_m v"
    and nd: "new_data = \<lparr>buffer_m = Ptr b 0, capacity_m = N\<rparr>"
    and bl: "block_len w b = Some N" and N: "size_m v < N"
    and ab: "\<forall>a j. buffer_m (data_m v) = Ptr a j \<longrightarrow> a \<noteq> b"
    and r: "EmplaceShared_relocate T (iter v i) x v new_data w = (Inr res, w')"
  shows "res = Ptr b i" and "same_shape w w'"
    and "k \<le> size_m v \<Longrightarrow> load w' (Ptr b k)
          = (if k < i then load w (iter v k) else if k = i then Some x
             else load w (iter v (k - 1)))"
proof -
  have "res = Ptr b i \<and> same_shape w w' \<and>
    (\<forall>k \<le> size_m v. load w' (Ptr b k)
          = (if k < i then load w (iter v k) else if k = i then Some x
             else load w (iter v (k - 1))))"
  proof (cases "buffer_m (data_m v)")
    case Null
    note z = wf_Null [OF ok Null]
    have it: "iter v j = Null" for j by (rule iter_Null [OF ok Null])
    from r [unfolded it nd EmplaceShared_relocate_Null [OF ok Null]]
    obtain u where c: "construct_at (Ptr b 0) x w = (Inr u, w')" and res: "res = Ptr b 0"
      by (auto split: prod.splits sum.splits)
    note c1 = construct_at_Inr [OF c]
    show ?thesis
      using i z res c1 bl N by simp
  next
    case (Ptr a j)
    note p = wf_Ptr [OF ok Ptr]
    have it: "iter v j = Ptr a j" for j by (rule iter_Ptr [OF ok Ptr])
    have ab': "a \<noteq> b" using ab Ptr by blast
    from r [unfolded it nd EmplaceShared_relocate_Ptr [OF ok Ptr i]]
    obtain w1 w2 where
      c: "construct_at (Ptr b i) x w = (Inr (), w1)" and
      l1: "relocate_n T (Ptr a 0) i (Ptr b 0) w1 = (Inr (), w2)" and
      l2: "relocate_n T (Ptr a i) (size_m v - i) (Ptr b (Suc i)) w2 = (Inr (), w')" and
      res: "res = Ptr b i"
      by (auto split: prod.splits sum.splits)
    note c1 = construct_at_Inr [OF c]
    have bl1: "block_len w1 b = Some N"
      using c1(1) bl by (simp add: same_shape_block_len)
    have iN: "0 + i \<le> N" using i N by simp
    note r1 = relocate_n_Inr [OF l1 ab' bl1 iN]
    have bl2: "block_len w2 b = Some N"
      using r1(1) bl1 by (simp add: same_shape_block_len)
    have sN: "Suc i + (size_m v - i) \<le> N" using i N by simp
    note r2 = relocate_n_Inr [OF l2 ab' bl2 sN]
    have sh: "same_shape w w'"
      using c1(1) r1(1) r2(1) by (meson same_shape_trans)
    have vb: "valid w (Ptr b i)" using bl i N by simp
    have "load w' (Ptr b k)
          = (if k < i then load w (Ptr a k) else if k = i then Some x
             else load w (Ptr a (k - 1)))" if "k \<le> size_m v" for k
    proof -
      consider "k < i" | "k = i" | "i < k" by arith
      then show ?thesis
      proof cases
        case 1
        have "load w' (Ptr b k) = load w2 (Ptr b k)"
          using r2(2) [of b k] ab' 1 by simp
        also have "\<dots> = load w1 (Ptr a k)"
          using r1(2) [of b k] ab' 1 by simp
        also have "\<dots> = load w (Ptr a k)"
          using ab' by (simp add: c1(2))
        finally show ?thesis using 1 by simp
      next
        case 2
        have "load w' (Ptr b k) = load w2 (Ptr b k)"
          using r2(2) [of b k] ab' 2 by simp
        also have "\<dots> = load w1 (Ptr b k)"
          using r1(2) [of b k] ab' 2 by simp
        also have "\<dots> = Some x"
          using vb 2 by (simp add: c1(2))
        finally show ?thesis using 2 by simp
      next
        case 3
        then have ar: "i + (k - Suc i) = k - 1" by arith
        have "load w' (Ptr b k) = load w2 (Ptr a (k - 1))"
          using r2(2) [of b k] ab' 3 that ar by simp
        also have "\<dots> = load w1 (Ptr a (k - 1))"
          using r1(2) [of a "k - 1"] ab' 3 by simp
        also have "\<dots> = load w (Ptr a (k - 1))"
          using ab' by (simp add: c1(2))
        finally show ?thesis using 3 by simp
      qed
    qed
    with res sh show ?thesis by (simp add: it)
  qed
  then show "res = Ptr b i" and "same_shape w w'"
    and "k \<le> size_m v \<Longrightarrow> load w' (Ptr b k)
          = (if k < i then load w (iter v k) else if k = i then Some x
             else load w (iter v (k - 1)))"
    by simp_all
qed

text \<open>A failure in the first branch leaves every block but the new one as it was.\<close>

lemma EmplaceShared_relocate_Inl:
  assumes ok: "vector_ok T v w0" and i: "i \<le> size_m v"
    and tr: "is_nothrow_move_constructible T \<or> is_copy_constructible T"
    and nd: "new_data = \<lparr>buffer_m = Ptr b 0, capacity_m = N\<rparr>"
    and r: "EmplaceShared_relocate T (iter v i) x v new_data w = (Inl e, w')"
  shows "e = ElemThrow" and "same_shape w w'"
    and "c \<noteq> b \<Longrightarrow> load w' (Ptr c k) = load w (Ptr c k)"
proof -
  have "e = ElemThrow \<and> same_shape w w' \<and>
    (\<forall>c k. c \<noteq> b \<longrightarrow> load w' (Ptr c k) = load w (Ptr c k))"
  proof (cases "buffer_m (data_m v)")
    case Null
    have it: "iter v j = Null" for j by (rule iter_Null [OF ok Null])
    from r [unfolded it nd EmplaceShared_relocate_Null [OF ok Null]]
    have "construct_at (Ptr b 0) x w = (Inl e, w')"
      by (auto split: prod.splits sum.splits)
    from construct_at_Inl [OF this] show ?thesis by simp
  next
    case (Ptr a j)
    have it: "iter v j = Ptr a j" for j by (rule iter_Ptr [OF ok Ptr])
    from r [unfolded it nd EmplaceShared_relocate_Ptr [OF ok Ptr i]]
    consider
      (A) "construct_at (Ptr b i) x w = (Inl e, w')"
    | (B) w1 w2 where "construct_at (Ptr b i) x w = (Inr (), w1)"
        "relocate_n T (Ptr a 0) i (Ptr b 0) w1 = (Inl e, w2)"
        "w' = destroy_at (Ptr b i) w2"
    | (C) w1 w2 w3 where "construct_at (Ptr b i) x w = (Inr (), w1)"
        "relocate_n T (Ptr a 0) i (Ptr b 0) w1 = (Inr (), w2)"
        "relocate_n T (Ptr a i) (size_m v - i) (Ptr b (Suc i)) w2 = (Inl e, w3)"
        "w' = destroy_at (Ptr b i) (destroy_n (Ptr b 0) i w3)"
      by (auto split: prod.splits sum.splits)
    then show ?thesis
    proof cases
      case A
      from construct_at_Inl [OF A] show ?thesis by simp
    next
      case B
      note c1 = construct_at_Inr [OF B(1)]
      note l1 = relocate_n_Inl [OF B(2) tr]
      have "same_shape w w'"
        unfolding B(3) using c1(1) l1(2) by (simp add: same_shape_trans)
      moreover have "load w' (Ptr c k) = load w (Ptr c k)" if "c \<noteq> b" for c k
        unfolding B(3) using that by (simp add: load_destroy_at l1(3) c1(2))
      ultimately show ?thesis using l1(1) by blast
    next
      case C
      note c1 = construct_at_Inr [OF C(1)]
      note l2 = relocate_n_Inl [OF C(3) tr]
      have nt: "\<not> is_nothrow_move_constructible T"
        using C(3) uninitialized_move_n_nothrow
          [of T "Ptr a i" "size_m v - i" "Ptr b (Suc i)" w2]
        by (auto simp: relocate_n_def)
      with tr C(2) have "uninitialized_copy_n (Ptr a 0) i (Ptr b 0) w1 = (Inr (), w2)"
        by (simp add: relocate_n_def)
      note l1 = uninitialized_copy_n_frame [OF this]
      have "same_shape w w'"
        unfolding C(4) using c1(1) l1 l2(2) by (auto intro: same_shape_trans)
      moreover have "load w' (Ptr c k) = load w (Ptr c k)" if "c \<noteq> b" for c k
        unfolding C(4) using that l1
        by (simp add: load_destroy_at load_destroy_n l2(3) c1(2))
      ultimately show ?thesis using l2(1) by blast
    qed
  qed
  then show "e = ElemThrow" and "same_shape w w'"
    and "c \<noteq> b \<Longrightarrow> load w' (Ptr c k) = load w (Ptr c k)"
    by simp_all
qed

text \<open>The second branch.\<close>

lemma ptr_add_minus_one_pos: "0 < i \<Longrightarrow> ptr_add (Ptr a i) (- 1) = Ptr a (i - 1)"
  by (cases i) simp_all

lemma EmplaceShared_inplace_end:
  assumes ok: "vector_ok T v w0" and p: "buffer_m (data_m v) = Ptr a j"
  shows "EmplaceShared_inplace T (Ptr a (size_m v)) x v w =
     (case construct_at (Ptr a (size_m v)) x w of
        (Inl e, w1) \<Rightarrow> (Inl e, w1)
      | (Inr u, w1) \<Rightarrow> (Inr (Ptr a (size_m v)), w1))"
  using wf_Ptr(1) [OF ok p]
  by (simp add: EmplaceShared_inplace_def end_it_ok [OF ok] iter_Ptr [OF ok p]
      GetAddress_def p Let_def)

lemma EmplaceShared_shift_eq:
  assumes ok: "vector_ok T v w0" and p: "buffer_m (data_m v) = Ptr a j"
    and i: "i < size_m v"
  shows "EmplaceShared_shift T (Ptr a i) v w =
     (case move_construct_at T (Ptr a (size_m v)) (Ptr a (size_m v - 1)) w of
        (Inl e, w1) \<Rightarrow> (Inl e, w1)
      | (Inr u, w1) \<Rightarrow>
          move_backward_n T (Ptr a i) (size_m v - 1 - i) (Ptr a (size_m v)) w1)"
proof (cases "1 < size_m v")
  case True
  have "nat (int (size_m v) - 1 - int i) = size_m v - Suc i" by arith
  with True i show ?thesis
    by (simp add: EmplaceShared_shift_def end_it_ok [OF ok] iter_Ptr [OF ok p]
        ptr_add_minus_one_pos std_move_backward_def cong: sum.case_cong prod.case_cong)
next
  case False
  with i have "size_m v = 1" and "i = 0" by simp_all
  then show ?thesis
    by (simp add: EmplaceShared_shift_def end_it_ok [OF ok] iter_Ptr [OF ok p]
        ptr_add_minus_one_pos cong: sum.case_cong prod.case_cong
        split: prod.splits sum.splits)
qed

lemma EmplaceShared_inplace_mid:
  assumes ok: "vector_ok T v w0" and p: "buffer_m (data_m v) = Ptr a j"
    and i: "i < size_m v"
  shows "EmplaceShared_inplace T (Ptr a i) x v w =
     (case construct_temp x w of
        (Inl e, w1) \<Rightarrow> (Inl e, w1)
      | (Inr temp, w1) \<Rightarrow>
          (case EmplaceShared_shift T (Ptr a i) v w1 of
             (Inl e, w2) \<Rightarrow> (Inl e, w2)
           | (Inr u, w2) \<Rightarrow>
               (case move_assign_temp (Ptr a i) temp w2 of
                  (Inl e, w3) \<Rightarrow> (Inl e, w3)
                | (Inr u, w3) \<Rightarrow> (Inr (Ptr a i), w3))))"
  using i
  by (simp add: EmplaceShared_inplace_def end_it_ok [OF ok] iter_Ptr [OF ok p] Let_def)

lemma EmplaceShared_inplace_Inr:
  assumes ok: "vector_ok T v w" and i: "i \<le> size_m v"
    and room: "size_m v < capacity_m (data_m v)"
    and r: "EmplaceShared_inplace T (iter v i) x v w = (Inr res, w')"
  shows "res = iter v i" and "same_shape w w'"
    and "k \<le> size_m v \<Longrightarrow> load w' (iter v k)
          = (if k < i then load w (iter v k) else if k = i then Some x
             else load w (iter v (k - 1)))"
proof -
  from room wf_Null(1) [OF ok] obtain a j where p: "buffer_m (data_m v) = Ptr a j"
    by (cases "buffer_m (data_m v)") auto
  note p1 = wf_Ptr [OF ok p]
  have it: "iter v j = Ptr a j" for j by (rule iter_Ptr [OF ok p])
  let ?s = "size_m v"
  have "res = Ptr a i \<and> same_shape w w' \<and>
    (\<forall>k \<le> ?s. load w' (Ptr a k)
          = (if k < i then load w (Ptr a k) else if k = i then Some x
             else load w (Ptr a (k - 1))))"
  proof (cases "i = ?s")
    case True
    from r [unfolded it True EmplaceShared_inplace_end [OF ok p]]
    obtain u where c: "construct_at (Ptr a ?s) x w = (Inr u, w')" and res: "res = Ptr a ?s"
      by (auto split: prod.splits sum.splits)
    note c1 = construct_at_Inr [OF c]
    have "valid w (Ptr a ?s)" using p1(3) room by simp
    with True res c1 show ?thesis by (auto simp: c1(2))
  next
    case False
    with i have i': "i < ?s" by simp
    from r [unfolded it EmplaceShared_inplace_mid [OF ok p i']
        EmplaceShared_shift_eq [OF ok p i']]
    obtain y w1 w2 w3 where
      t: "construct_temp x w = (Inr y, w1)" and
      m: "move_construct_at T (Ptr a ?s) (Ptr a (?s - 1)) w1 = (Inr (), w2)" and
      b: "move_backward_n T (Ptr a i) (?s - 1 - i) (Ptr a ?s) w2 = (Inr (), w3)" and
      s: "move_assign_temp (Ptr a i) y w3 = (Inr (), w')" and
      res: "res = Ptr a i"
      by (auto split: prod.splits sum.splits)
    note t1 = construct_temp_Inr [OF t]
    have ne: "Ptr a ?s \<noteq> Ptr a (?s - 1)" using i' by simp
    note m1 = move_construct_at_Inr [OF m ne]
    have bl1: "block_len w1 a = Some (capacity_m (data_m v))"
      using t1(2) p1(3) by (simp add: same_shape_block_len)
    have bl2: "block_len w2 a = Some (capacity_m (data_m v))"
      using m1(1) bl1 by (simp add: same_shape_block_len)
    have dl: "Ptr a ?s = Ptr a (Suc (i + (?s - 1 - i)))" using i' by simp
    have lw: "load w (Ptr a k) \<noteq> None" if "k < ?s" for k
      using wf_live [OF ok that] that by (simp add: nth_elems p p1(1))
    have lw2: "load w2 (Ptr a k) \<noteq> None" if "k < ?s" for k
      using lw [OF that] lw [of "?s - 1"] i' that by (auto simp: m1(2) t1(3))
    have lv2: "\<forall>k. i < k \<and> k \<le> i + (?s - 1 - i) \<longrightarrow> load w2 (Ptr a k) \<noteq> None"
      using lw2 i' by auto
    note b0 = move_backward_n_Inr [OF b [unfolded dl] lv2]
    note b1 = b0 [THEN conjunct2, rule_format]
    have sh3: "same_shape w2 w3" using b0 by simp
    have bl3: "block_len w3 a = Some (capacity_m (data_m v))"
      using sh3 bl2 by (simp add: same_shape_block_len)
    note s1 = move_assign_temp_Inr [OF s]
    have sh: "same_shape w w'"
      using t1(2) m1(1) sh3 s1(1) by (meson same_shape_trans)
    have vs: "valid w1 (Ptr a ?s)" using bl1 room by simp
    have vi: "load w3 (Ptr a i) \<noteq> None"
      using lw2 [of i] i' b1 [of a i] by auto
    have "load w' (Ptr a k)
          = (if k < i then load w (Ptr a k) else if k = i then Some x
             else load w (Ptr a (k - 1)))" if kk: "k \<le> ?s" for k
    proof -
      consider "k < i" | "k = i" | "i < k" "k < ?s" | "k = ?s" "i < k" using kk by arith
      then show ?thesis
      proof cases
        case 1
        then have "load w' (Ptr a k) = load w3 (Ptr a k)" by (simp add: s1(2))
        also have "\<dots> = load w2 (Ptr a k)"
        proof -
          have "\<not> i < k" "k \<noteq> i" using 1 by arith+
          then show ?thesis using b1 [of a k] by simp
        qed
        also have "\<dots> = load w1 (Ptr a k)"
        proof -
          have "k \<noteq> ?s - 1" "k \<noteq> ?s" using 1 i' by arith+
          then show ?thesis by (simp add: m1(2))
        qed
        finally show ?thesis using 1 by (simp add: t1(3))
      next
        case 2
        then show ?thesis using vi t1(1) by (simp add: s1(2))
      next
        case 3
        then have "load w' (Ptr a k) = load w3 (Ptr a k)" by (simp add: s1(2))
        also have "\<dots> = load w2 (Ptr a (k - 1))"
        proof -
          have "i < k \<and> k \<le> i + (?s - 1 - i)" using 3 by arith
          then show ?thesis using b1 [of a k] by simp
        qed
        also have "\<dots> = load w1 (Ptr a (k - 1))"
        proof -
          have "k - 1 \<noteq> ?s - 1" "k - 1 \<noteq> ?s" using 3 by arith+
          then show ?thesis by (simp add: m1(2))
        qed
        finally show ?thesis using 3 by (simp add: t1(3))
      next
        case 4
        then have "load w' (Ptr a k) = load w3 (Ptr a k)" by (simp add: s1(2))
        also have "\<dots> = load w2 (Ptr a k)"
        proof -
          have "\<not> k \<le> i + (?s - 1 - i)" "k \<noteq> i" using 4 by arith+
          then show ?thesis using b1 [of a k] by simp
        qed
        also have "\<dots> = load w1 (Ptr a (k - 1))"
        proof -
          have "?s \<noteq> ?s - 1" using i' by arith
          then show ?thesis using 4 vs by (simp add: m1(2))
        qed
        finally show ?thesis using 4 by (simp add: t1(3))
      qed
    qed
    with res sh show ?thesis by simp
  qed
  then show "res = iter v i" and "same_shape w w'"
    and "k \<le> size_m v \<Longrightarrow> load w' (iter v k)
          = (if k < i then load w (iter v k) else if k = i then Some x
             else load w (iter v (k - 1)))"
    by (simp_all add: it)
qed

text \<open>Both branches together.\<close>

lemma nth_insert:
  "i \<le> length xs \<Longrightarrow> k \<le> length xs \<Longrightarrow>
     (take i xs @ y # drop i xs) ! k
     = (if k < i then xs ! k else if k = i then y else xs ! (k - 1))"
  by (auto simp: nth_append nth_Cons' min_def)

lemma grow_bounds:
  assumes "N = (if c = 0 then 1 else 2 * c)" and "N * s < 2 ^ 64" and "0 < (s::nat)"
  shows "N < 2 ^ 64" and "c < N" and "wrap (c * 2) = 2 * c \<or> c = 0" and "wrap (c + 1) = Suc c"
proof -
  have "N \<le> N * s" using assms(3) by (cases s) simp_all
  with assms(2) show N: "N < 2 ^ 64" by linarith
  show cN: "c < N" using assms(1) by simp
  show "wrap (c * 2) = 2 * c \<or> c = 0"
    using N assms(1) by (auto simp: wrap_def)
  show "wrap (c + 1) = Suc c"
    using N cN by (simp add: wrap_def)
qed

lemma EmplaceShared_full_eq:
  assumes ok: "vector_ok T v w0" and full: "size_m v = capacity_m (data_m v)"
    and N: "N = (if capacity_m (data_m v) = 0 then 1 else 2 * capacity_m (data_m v))"
    and nw: "N * sizeof_T T < 2 ^ 64" and T: "0 < sizeof_T T"
  shows "EmplaceShared T pos x v w =
     (case RawMemory_ctor T N w of
        (Inl e, w1) \<Rightarrow> (Inl e, v, w1)
      | (Inr new_data, w1) \<Rightarrow>
          (case EmplaceShared_relocate T pos x v new_data w1 of
             (Inl e, w2) \<Rightarrow> (Inl e, v, operator_delete (buffer_m new_data) w2)
           | (Inr result, w2) \<Rightarrow>
               (Inr result,
                v\<lparr>data_m := (data_m v)\<lparr>buffer_m := buffer_m new_data,
                                       capacity_m := capacity_m new_data\<rparr>,
                  size_m := Suc (size_m v)\<rparr>,
                operator_delete (buffer_m (data_m v))
                  (destroy_n (iter v 0) (size_m v) w2))))"
proof (cases "capacity_m (data_m v) = 0")
  case True
  then have "N = Suc 0" and "wrap (Suc 0) = Suc 0" and "size_m v = 0"
    using N full by (simp_all add: wrap_def)
  with True full show ?thesis
    by (simp add: EmplaceShared_def Capacity_def RawMemory_Capacity_def
        begin_it_ok [OF ok] iter_def RawMemory_Swap_def RawMemory_dtor_def Deallocate_def
        cong: sum.case_cong prod.case_cong)
next
  case False
  note g = grow_bounds [OF N nw T]
  from False g(3) N have n: "wrap (capacity_m (data_m v) * 2) = N" by simp
  have s: "wrap (Suc (capacity_m (data_m v))) = Suc (capacity_m (data_m v))"
    using g(4) by simp
  from False full show ?thesis
    by (simp add: EmplaceShared_def n s Capacity_def RawMemory_Capacity_def
        begin_it_ok [OF ok] RawMemory_Swap_def RawMemory_dtor_def Deallocate_def
        cong: sum.case_cong prod.case_cong)
qed

lemma EmplaceShared_room_eq:
  assumes ok: "vector_ok T v w0" and room: "size_m v < capacity_m (data_m v)"
    and T: "0 < sizeof_T T"
  shows "EmplaceShared T pos x v w =
     (case EmplaceShared_inplace T pos x v w of
        (Inl e, w1) \<Rightarrow> (Inl e, v, w1)
      | (Inr result, w1) \<Rightarrow> (Inr result, v\<lparr>size_m := Suc (size_m v)\<rparr>, w1))"
proof -
  have "Suc (size_m v) < 2 ^ 64"
    using wf_capacity_bound [OF ok T] room by simp
  then have s: "wrap (Suc (size_m v)) = Suc (size_m v)"
    by (simp add: wrap_def)
  show ?thesis
    using room
    by (simp add: EmplaceShared_def s Capacity_def RawMemory_Capacity_def
        cong: sum.case_cong prod.case_cong)
qed

lemma EmplaceShared_Inr:
  assumes ok: "vector_ok T v w" and T: "0 < sizeof_T T" and i: "i \<le> size_m v"
    and nw: "size_m v = Capacity v \<longrightarrow>
             (if Capacity v = 0 then 1 else 2 * Capacity v) * sizeof_T T < 2 ^ 64"
    and r: "EmplaceShared T (iter v i) x v w = (Inr res, v', w')"
  shows "size_m v' = Suc (size_m v)"
    and "Capacity v' = (if size_m v = Capacity v
                        then (if Capacity v = 0 then 1 else 2 * Capacity v) else Capacity v)"
    and "size_m v < Capacity v \<Longrightarrow> data_m v' = data_m v"
    and "res = iter v' i"
    and "elems v' w' = take i (elems v w) @ Some x # drop i (elems v w)"
    and "vector_ok T v' w'"
proof -
  let ?c = "capacity_m (data_m v)"
  let ?N = "if ?c = 0 then 1 else 2 * ?c"
  have nw': "?N * sizeof_T T < 2 ^ 64" if "size_m v = ?c"
    using nw that unfolding Capacity_def RawMemory_Capacity_def by simp
  have ld: "load w (iter v k) = elems v w ! k" if "k < size_m v" for k
    using elems_nth_iter [OF ok that, of w] by simp
  have "size_m v' = Suc (size_m v) \<and>
    capacity_m (data_m v') = (if size_m v = ?c then ?N else ?c) \<and>
    (size_m v < ?c \<longrightarrow> data_m v' = data_m v) \<and> res = iter v' i \<and>
    (\<forall>k \<le> size_m v. elems v' w' ! k
       = (if k < i then elems v w ! k else if k = i then Some x else elems v w ! (k - 1))) \<and>
    vector_ok T v' w'"
  proof (cases "size_m v = ?c")
    case True
    let ?b = "length (heap w)"
    note nw' = nw' [OF True]
    note g = grow_bounds [OF refl nw' T]
    from r [unfolded EmplaceShared_full_eq [OF ok True refl nw' T]]
    obtain new_data w1 w2 where
      c: "RawMemory_ctor T ?N w = (Inr new_data, w1)" and
      l: "EmplaceShared_relocate T (iter v i) x v new_data w1 = (Inr res, w2)" and
      v': "v' = v\<lparr>data_m := (data_m v)\<lparr>buffer_m := buffer_m new_data,
                                        capacity_m := capacity_m new_data\<rparr>,
                   size_m := Suc (size_m v)\<rparr>" and
      w': "w' = operator_delete (buffer_m (data_m v)) (destroy_n (iter v 0) (size_m v) w2)"
      by (auto split: prod.splits sum.splits)
    have N0: "0 < ?N" by simp
    note c1 = RawMemory_ctor_Inr [OF c N0 T nw']
    have bl1: "block_len w1 ?b = Some ?N" by (simp add: c1(3))
    have sN: "size_m v < ?N" using g(2) True by simp
    have ab: "a \<noteq> ?b" if "buffer_m (data_m v) = Ptr a j" for a j
      using wf_Ptr(4) [OF ok that] by simp
    have ab0: "\<forall>a j. buffer_m (data_m v) = Ptr a j \<longrightarrow> a \<noteq> ?b"
      using ab by blast
    note l1 = EmplaceShared_relocate_Inr [OF ok i c1(1) bl1 sN ab0 l]
    have fv': "buffer_m (data_m v') = Ptr ?b 0" "capacity_m (data_m v') = ?N"
      "size_m v' = Suc (size_m v)"
      by (simp_all add: v' c1(1))
    have okv': "vector_ok T v' w0" if "vector_ok T v' w0" for w0 by (rule that)
    have new: "load w' (Ptr ?b k) = load w2 (Ptr ?b k)" for k
    proof (cases "buffer_m (data_m v)")
      case Null
      then show ?thesis by (simp add: w' iter_Null [OF ok Null])
    next
      case (Ptr a j)
      with ab [OF Ptr] show ?thesis
        by (simp add: w' iter_Ptr [OF ok Ptr] load_operator_delete load_destroy_n)
    qed
    have blN: "block_len w' ?b = Some ?N"
    proof (cases "buffer_m (data_m v)")
      case Null
      then show ?thesis
        using bl1 same_shape_block_len [OF l1(2)] by (simp add: w' iter_Null [OF ok Null])
    next
      case (Ptr a j)
      with ab [OF Ptr] show ?thesis
        using bl1 same_shape_block_len [OF l1(2)]
        by (simp add: w' iter_Ptr [OF ok Ptr] block_len_operator_delete)
    qed
    have el: "load w' (Ptr ?b k)
       = (if k < i then elems v w ! k else if k = i then Some x else elems v w ! (k - 1))"
      if kk: "k \<le> size_m v" for k
    proof -
      have "k - 1 < size_m v" if "i < k" using that kk by arith
      then show ?thesis
        using l1(3) [OF kk] i kk by (auto simp: new c1(4) ld)
    qed
    have live: "load w' (Ptr ?b k) \<noteq> None" if kk: "k < Suc (size_m v)" for k
    proof -
      have k1: "k \<le> size_m v" using kk by simp
      have "k - 1 < size_m v" if "i < k" using that kk by arith
      then show ?thesis
        using el [OF k1] wf_live [OF ok, of k] wf_live [OF ok, of "k - 1"] i kk
        by (auto split: if_splits)
    qed
    have ok': "vector_ok T v' w'"
    proof (rule wf_Ptr_I [where a = ?b])
      show "buffer_m (data_m v') = Ptr ?b 0" by (rule fv'(1))
      show "0 < capacity_m (data_m v')" by (simp add: fv'(2))
      show "block_len w' ?b = Some (capacity_m (data_m v'))" using blN by (simp add: fv'(2))
      show "size_m v' \<le> capacity_m (data_m v')" using sN by (simp add: fv')
      show "capacity_m (data_m v') * sizeof_T T < 2 ^ 64" using nw' by (simp add: fv'(2))
      show "load w' (Ptr ?b k) \<noteq> None" if "k < size_m v'" for k
        using that live by (simp add: fv'(3))
    qed
    have "res = iter v' i"
      using l1(1) iter_Ptr [OF ok' fv'(1)] by simp
    moreover have "elems v' w' ! k
       = (if k < i then elems v w ! k else if k = i then Some x else elems v w ! (k - 1))"
      if "k \<le> size_m v" for k
      using that el [OF that] by (simp add: nth_elems fv')
    ultimately show ?thesis
      using True ok' fv' by simp
  next
    case False
    with wf_size(1) [OF ok] have room: "size_m v < ?c" by simp
    from r [unfolded EmplaceShared_room_eq [OF ok room T]]
    have l: "EmplaceShared_inplace T (iter v i) x v w = (Inr res, w')" and
      v': "v' = v\<lparr>size_m := Suc (size_m v)\<rparr>"
      by (auto split: prod.splits sum.splits)
    note l1 = EmplaceShared_inplace_Inr [OF ok i room l]
    from room wf_Null(1) [OF ok] obtain a j where p: "buffer_m (data_m v) = Ptr a j"
      by (cases "buffer_m (data_m v)") auto
    note p1 = wf_Ptr [OF ok p]
    have it: "iter v j = Ptr a j" for j by (rule iter_Ptr [OF ok p])
    have el: "load w' (Ptr a k)
       = (if k < i then elems v w ! k else if k = i then Some x else elems v w ! (k - 1))"
      if kk: "k \<le> size_m v" for k
    proof -
      have "k - 1 < size_m v" if "i < k" using that kk by arith
      then show ?thesis
        using l1(3) [OF kk] i kk by (auto simp: it ld [unfolded it])
    qed
    have live: "load w' (Ptr a k) \<noteq> None" if kk: "k < Suc (size_m v)" for k
    proof -
      have k1: "k \<le> size_m v" using kk by simp
      have "k - 1 < size_m v" if "i < k" using that kk by arith
      then show ?thesis
        using el [OF k1] wf_live [OF ok, of k] wf_live [OF ok, of "k - 1"] i kk
        by (auto split: if_splits)
    qed
    have ok': "vector_ok T v' w'"
    proof (rule wf_Ptr_I [where a = a])
      show "buffer_m (data_m v') = Ptr a 0" using p p1(1) by (simp add: v')
      show "0 < capacity_m (data_m v')" using p1(2) by (simp add: v')
      show "block_len w' a = Some (capacity_m (data_m v'))"
        using p1(3) same_shape_block_len [OF l1(2)] by (simp add: v')
      show "size_m v' \<le> capacity_m (data_m v')" using room by (simp add: v')
      show "capacity_m (data_m v') * sizeof_T T < 2 ^ 64"
        using wf_size(2) [OF ok] by (simp add: v')
      show "load w' (Ptr a k) \<noteq> None" if "k < size_m v'" for k
        using that live by (simp add: v')
    qed
    have "res = iter v' i"
      using l1(1) by (simp add: iter_def v' Capacity_def)
    moreover have "elems v' w' ! k
       = (if k < i then elems v w ! k else if k = i then Some x else elems v w ! (k - 1))"
      if "k \<le> size_m v" for k
      using that el [OF that] p p1(1) by (simp add: nth_elems v')
    ultimately show ?thesis
      using False room ok' by (simp add: v')
  qed
  then have a: "size_m v' = Suc (size_m v)"
    and b: "capacity_m (data_m v') = (if size_m v = ?c then ?N else ?c)"
    and c: "size_m v < ?c \<longrightarrow> data_m v' = data_m v" and d: "res = iter v' i"
    and e: "\<And>k. k \<le> size_m v \<Longrightarrow> elems v' w' ! k
       = (if k < i then elems v w ! k else if k = i then Some x else elems v w ! (k - 1))"
    and f: "vector_ok T v' w'"
    by simp_all
  show "size_m v' = Suc (size_m v)" by (rule a)
  show "Capacity v' = (if size_m v = Capacity v
                        then (if Capacity v = 0 then 1 else 2 * Capacity v) else Capacity v)"
    using b by (simp add: Capacity_def RawMemory_Capacity_def)
  show "size_m v < Capacity v \<Longrightarrow> data_m v' = data_m v"
    using c by (simp add: Capacity_def RawMemory_Capacity_def)
  show "res = iter v' i" by (rule d)
  show "elems v' w' = take i (elems v w) @ Some x # drop i (elems v w)"
    using i a e by (intro nth_equalityI) (simp_all add: nth_insert less_Suc_eq_le)
  show "vector_ok T v' w'" by (rule f)
qed

lemma EmplaceShared_Inl:
  assumes ok: "vector_ok T v w" and T: "0 < sizeof_T T" and i: "i \<le> size_m v"
    and tr: "is_nothrow_move_constructible T \<or> is_copy_constructible T"
    and full: "size_m v = Capacity v"
    and nw: "(if Capacity v = 0 then 1 else 2 * Capacity v) * sizeof_T T < 2 ^ 64"
    and r: "EmplaceShared T (iter v i) x v w = (Inl e, v', w')"
  shows "v' = v" and "elems v w' = elems v w" and "vector_ok T v w'"
    and "e = BadAlloc \<or> e = ElemThrow"
proof -
  let ?c = "capacity_m (data_m v)"
  let ?N = "if ?c = 0 then 1 else 2 * ?c"
  let ?b = "length (heap w)"
  have nw': "?N * sizeof_T T < 2 ^ 64"
    using nw unfolding Capacity_def RawMemory_Capacity_def .
  have full': "size_m v = ?c"
    using full by (simp add: Capacity_def RawMemory_Capacity_def)
  have r': "(case RawMemory_ctor T ?N w of
        (Inl e, w1) \<Rightarrow> (Inl e, v, w1)
      | (Inr new_data, w1) \<Rightarrow>
          (case EmplaceShared_relocate T (iter v i) x v new_data w1 of
             (Inl e, w2) \<Rightarrow> (Inl e, v, operator_delete (buffer_m new_data) w2)
           | (Inr result, w2) \<Rightarrow>
               (Inr result,
                v\<lparr>data_m := (data_m v)\<lparr>buffer_m := buffer_m new_data,
                                       capacity_m := capacity_m new_data\<rparr>,
                  size_m := Suc (size_m v)\<rparr>,
                operator_delete (buffer_m (data_m v))
                  (destroy_n (iter v 0) (size_m v) w2)))) = (Inl e, v', w')"
    using r by (simp only: EmplaceShared_full_eq [OF ok full' refl nw' T])
  have "(RawMemory_ctor T ?N w = (Inl e, w') \<and> v' = v) \<or>
    (\<exists>new_data w1 w2. RawMemory_ctor T ?N w = (Inr new_data, w1) \<and>
      EmplaceShared_relocate T (iter v i) x v new_data w1 = (Inl e, w2) \<and>
      w' = operator_delete (buffer_m new_data) w2 \<and> v' = v)"
  proof (cases "RawMemory_ctor T ?N w")
    case (Pair rc w1)
    show ?thesis
    proof (cases rc)
      case (Inl e1)
      with Pair r' show ?thesis by simp
    next
      case (Inr new_data)
      show ?thesis
      proof (cases "EmplaceShared_relocate T (iter v i) x v new_data w1")
        case rl: (Pair rr w2)
        show ?thesis
        proof (cases rr)
          case (Inl e2)
          with Pair Inr rl r' show ?thesis by simp
        next
          case Inr2: (Inr res)
          with Pair Inr rl r' show ?thesis by simp
        qed
      qed
    qed
  qed
  then consider
    (A) "RawMemory_ctor T ?N w = (Inl e, w')" "v' = v"
  | (B) new_data w1 w2 where "RawMemory_ctor T ?N w = (Inr new_data, w1)"
      "EmplaceShared_relocate T (iter v i) x v new_data w1 = (Inl e, w2)"
      "w' = operator_delete (buffer_m new_data) w2" "v' = v"
    by blast
  then have "v' = v \<and> elems v w' = elems v w \<and> vector_ok T v w'
    \<and> (e = BadAlloc \<or> e = ElemThrow)"
  proof cases
    case A
    note c1 = RawMemory_ctor_Inl [OF A(1)]
    from wf_frame [OF ok, of w'] c1 A(2) show ?thesis
      by (simp add: same_shape_block_len)
  next
    case B
    have N0: "0 < ?N" by simp
    note c1 = RawMemory_ctor_Inr [OF B(1) N0 T nw']
    note l1 = EmplaceShared_relocate_Inl [OF ok i tr c1(1) B(2)]
    have w': "w' = operator_delete (Ptr ?b 0) w2" by (simp add: B(3) c1(1))
    have "block_len w' a = block_len w a" if "buffer_m (data_m v) = Ptr a j" for a j
      using wf_Ptr(4) [OF ok that] same_shape_block_len [OF l1(2)]
      by (simp add: w' block_len_operator_delete c1(3))
    moreover have "load w' (Ptr a k) = load w (Ptr a k)"
      if "buffer_m (data_m v) = Ptr a j" for a j k
      using wf_Ptr(4) [OF ok that] l1(3) [of a k]
      by (simp add: w' load_operator_delete c1(4))
    ultimately show ?thesis
      using wf_frame [OF ok, of w'] l1(1) B(4) by blast
  qed
  then show "v' = v" and "elems v w' = elems v w" and "vector_ok T v w'"
    and "e = BadAlloc \<or> e = ElemThrow"
    by simp_all
qed

lemma EmplaceShared_relocate_quiet:
  assumes ok: "vector_ok T v w0" and i: "i \<le> size_m v" and q: "faults w = []"
  shows "\<exists>res w'. EmplaceShared_relocate T (iter v i) x v
            \<lparr>buffer_m = Ptr b 0, capacity_m = N\<rparr> w = (Inr res, w') \<and> faults w' = []"
proof (cases "buffer_m (data_m v)")
  case Null
  from construct_at_quiet [OF q, of "Ptr b 0" x] obtain w1 where
    "construct_at (Ptr b 0) x w = (Inr (), w1)" "faults w1 = []" by blast
  then show ?thesis
    by (simp add: iter_Null [OF ok Null] EmplaceShared_relocate_Null [OF ok Null])
next
  case (Ptr a j)
  from construct_at_quiet [OF q, of "Ptr b i" x] obtain w1 where
    c: "construct_at (Ptr b i) x w = (Inr (), w1)" and q1: "faults w1 = []" by blast
  from relocate_n_quiet [OF q1, of T "Ptr a 0" i "Ptr b 0"] obtain w2 where
    l1: "relocate_n T (Ptr a 0) i (Ptr b 0) w1 = (Inr (), w2)" and q2: "faults w2 = []"
    by blast
  from relocate_n_quiet [OF q2, of T "Ptr a i" "size_m v - i" "Ptr b (Suc i)"] obtain w3 where
    l2: "relocate_n T (Ptr a i) (size_m v - i) (Ptr b (Suc i)) w2 = (Inr (), w3)"
    and q3: "faults w3 = []" by blast
  from c l1 l2 q3 show ?thesis
    by (simp add: iter_Ptr [OF ok Ptr] EmplaceShared_relocate_Ptr [OF ok Ptr i])
qed

lemma EmplaceShared_inplace_quiet:
  assumes ok: "vector_ok T v w0" and i: "i \<le> size_m v"
    and room: "size_m v < capacity_m (data_m v)" and q: "faults w = []"
  shows "\<exists>res w'. EmplaceShared_inplace T (iter v i) x v w = (Inr res, w') \<and> faults w' = []"
proof -
  from room wf_Null(1) [OF ok] obtain a j where p: "buffer_m (data_m v) = Ptr a j"
    by (cases "buffer_m (data_m v)") auto
  have it: "iter v j = Ptr a j" for j by (rule iter_Ptr [OF ok p])
  show ?thesis
  proof (cases "i = size_m v")
    case True
    from construct_at_quiet [OF q, of "Ptr a (size_m v)" x] obtain w1 where
      "construct_at (Ptr a (size_m v)) x w = (Inr (), w1)" "faults w1 = []" by blast
    then show ?thesis
      by (simp add: it True EmplaceShared_inplace_end [OF ok p])
  next
    case False
    with i have i': "i < size_m v" by simp
    from move_construct_at_quiet [OF q, of T "Ptr a (size_m v)" "Ptr a (size_m v - 1)"]
    obtain w2 where
      m: "move_construct_at T (Ptr a (size_m v)) (Ptr a (size_m v - 1)) w = (Inr (), w2)"
      and q2: "faults w2 = []" by blast
    from move_backward_n_quiet [OF q2, of T "Ptr a i" "size_m v - 1 - i" "Ptr a (size_m v)"]
    obtain w3 where
      b: "move_backward_n T (Ptr a i) (size_m v - 1 - i) (Ptr a (size_m v)) w2 = (Inr (), w3)"
      and q3: "faults w3 = []" by blast
    from move_assign_temp_quiet [OF q3, of "Ptr a i" x] obtain w4 where
      s: "move_assign_temp (Ptr a i) x w3 = (Inr (), w4)" and q4: "faults w4 = []" by blast
    from m b s q4 show ?thesis
      by (simp add: it EmplaceShared_inplace_mid [OF ok p i']
          EmplaceShared_shift_eq [OF ok p i'] construct_temp_quiet [OF q])
  qed
qed

lemma EmplaceShared_quiet:
  assumes ok: "vector_ok T v w" and T: "0 < sizeof_T T" and i: "i \<le> size_m v"
    and nw: "size_m v = Capacity v \<longrightarrow>
             (if Capacity v = 0 then 1 else 2 * Capacity v) * sizeof_T T < 2 ^ 64"
    and q: "faults w = []"
  shows "\<exists>res v' w'. EmplaceShared T (iter v i) x v w = (Inr res, v', w') \<and> faults w' = []"
proof (cases "size_m v = capacity_m (data_m v)")
  case True
  let ?c = "capacity_m (data_m v)"
  let ?N = "if ?c = 0 then 1 else 2 * ?c"
  have nw': "?N * sizeof_T T < 2 ^ 64"
    using nw True unfolding Capacity_def RawMemory_Capacity_def by simp
  from RawMemory_ctor_quiet [OF q, of T ?N] obtain m w1 where
    c: "RawMemory_ctor T ?N w = (Inr m, w1)" and q1: "faults w1 = []" by blast
  have N0: "0 < ?N" by simp
  note c1 = RawMemory_ctor_Inr [OF c N0 T nw']
  from EmplaceShared_relocate_quiet [OF ok i q1, where x = x and b = "length (heap w)" and N = ?N]
  obtain res w2 where
    l: "EmplaceShared_relocate T (iter v i) x v m w1 = (Inr res, w2)" and q2: "faults w2 = []"
    unfolding c1(1) by blast
  from c l q2 show ?thesis
    by (simp add: EmplaceShared_full_eq [OF ok True refl nw' T])
next
  case False
  with wf_size(1) [OF ok] have room: "size_m v < capacity_m (data_m v)" by simp
  from EmplaceShared_inplace_quiet [OF ok i room q, where x = x] obtain res w1 where
    "EmplaceShared_inplace T (iter v i) x v w = (Inr res, w1)" "faults w1 = []" by blast
  then show ?thesis
    by (simp add: EmplaceShared_room_eq [OF ok room T])
qed

section \<open>Insert and Emplace\<close>

text \<open>
  C4. For a well-formed vector and a position \<^verbatim>\<open>begin() + i\<close> with \<open>i\<close> at most the size
  (when the vector is full, the byte size of the doubled storage fitting \<^verbatim>\<open>size_t\<close>):
  a call of \<^verbatim>\<open>Insert\<close> or \<^verbatim>\<open>Emplace\<close> that returns has increased the size by one, the
  element at index \<open>i\<close> is the inserted value, and the other elements keep their values
  and their order: the elements are the old ones with the new value put in at index
  \<open>i\<close>. This holds in the branch that reallocates and in the branch that does not. When
  nothing throws the call returns.
\<close>

theorem Insert_spec:
  assumes "vector_ok T v w" and "0 < sizeof_T T" and "i \<le> size_m v"
    and "size_m v = Capacity v \<longrightarrow>
           (if Capacity v = 0 then 1 else 2 * Capacity v) * sizeof_T T < 2 ^ 64"
  shows "(\<forall>res v' w'. Insert T (iter v i) x v w = (Inr res, v', w') \<longrightarrow>
            size_m v' = size_m v + 1 \<and> elems v' w' ! i = Some x
            \<and> elems v' w' = take i (elems v w) @ Some x # drop i (elems v w)
            \<and> vector_ok T v' w')
    \<and> Emplace T (iter v i) x v w = Insert T (iter v i) x v w
    \<and> (faults w = [] \<longrightarrow> (\<exists>res v' w'. Insert T (iter v i) x v w = (Inr res, v', w')))"
proof (intro conjI impI allI)
  fix res v' w'
  assume "Insert T (iter v i) x v w = (Inr res, v', w')"
  then have r: "EmplaceShared T (iter v i) x v w = (Inr res, v', w')"
    by (simp add: Insert_def)
  note e = EmplaceShared_Inr [OF assms r]
  show "size_m v' = size_m v + 1" using e(1) by simp
  show el: "elems v' w' = take i (elems v w) @ Some x # drop i (elems v w)" by (rule e(5))
  show "elems v' w' ! i = Some x"
    unfolding el using assms(3) by (simp add: nth_append)
  show "vector_ok T v' w'" by (rule e(6))
next
  show "Emplace T (iter v i) x v w = Insert T (iter v i) x v w"
    by (simp add: Emplace_def Insert_def)
next
  assume "faults w = []"
  from EmplaceShared_quiet [OF assms this, of x]
  show "\<exists>res v' w'. Insert T (iter v i) x v w = (Inr res, v', w')"
    by (auto simp: Insert_def)
qed

lemma Insert_example_inplace:
  "Insert T_copyable (iter v123 1) 10 v123 (w123 []) =
     (Inr (Ptr 0 1), \<lparr>data_m = \<lparr>buffer_m = Ptr 0 0, capacity_m = 4\<rparr>, size_m = 4\<rparr>,
      \<lparr>heap = [Some [Some 1, Some 10, Some 2, Some 3]], faults = []\<rparr>)"
  by (simp add: run_defs T_copyable_def v123_def w123_def)

lemma Insert_example_realloc:
  "Insert T_copyable (iter v12 1) 10 v12 (w12 []) =
     (Inr (Ptr 1 1), \<lparr>data_m = \<lparr>buffer_m = Ptr 1 0, capacity_m = 4\<rparr>, size_m = 3\<rparr>,
      \<lparr>heap = [None, Some [Some 1, Some 10, Some 2, None]], faults = []\<rparr>)"
  by (simp add: run_defs T_copyable_def v12_def w12_def)

lemma examples_ok:
  "vector_ok T_copyable v123 (w123 fs)" "vector_ok T_copyable v12 (w12 fs)"
  "vector_ok T_int v123 (w123 fs)" "vector_ok T_int v12 (w12 fs)"
  "elems v123 (w123 fs) = [Some 1, Some 2, Some 3]" "elems v12 (w12 fs) = [Some 1, Some 2]"
  "size_m v123 = 3" "Capacity v123 = 4" "size_m v12 = 2" "Capacity v12 = 2"
  "sizeof_T T_copyable = 32" "sizeof_T T_int = 4"
  by (simp_all add: run_defs T_copyable_def T_int_def v123_def w123_def v12_def w12_def)

theorem Insert_spec_witness:
  "vector_ok T_copyable v12 (w12 []) \<and> 0 < sizeof_T T_copyable \<and> 1 \<le> size_m v12
    \<and> (if Capacity v12 = 0 then 1 else 2 * Capacity v12) * sizeof_T T_copyable < 2 ^ 64
    \<and> size_m v12 = Capacity v12 \<and> faults (w12 []) = []
    \<and> elems v12 (w12 []) = [Some 1, Some 2]
    \<and> (\<exists>res v' w'. Insert T_copyable (iter v12 1) 10 v12 (w12 []) = (Inr res, v', w')
          \<and> size_m v' = 3 \<and> elems v' w' ! 1 = Some 10
          \<and> elems v' w' = [Some 1, Some 10, Some 2])"
proof -
  have h: "vector_ok T_copyable v12 (w12 [])" "0 < sizeof_T T_copyable" "1 \<le> size_m v12"
    "size_m v12 = Capacity v12 \<longrightarrow>
       (if Capacity v12 = 0 then 1 else 2 * Capacity v12) * sizeof_T T_copyable < 2 ^ 64"
    by (simp_all add: examples_ok)
  have g: "size_m v12 = Capacity v12" "elems v12 (w12 []) = [Some 1, Some 2]"
    by (simp_all add: examples_ok)
  have f: "faults (w12 []) = []" by (simp add: w12_def)
  from Insert_spec [OF h, of 10]
  have "\<forall>res v' w'. Insert T_copyable (iter v12 1) 10 v12 (w12 []) = (Inr res, v', w') \<longrightarrow>
            size_m v' = size_m v12 + 1 \<and> elems v' w' ! 1 = Some 10
            \<and> elems v' w' = take 1 (elems v12 (w12 [])) @ Some 10 # drop 1 (elems v12 (w12 []))"
    by blast
  with Insert_example_realloc
  have "\<exists>res v' w'. Insert T_copyable (iter v12 1) 10 v12 (w12 []) = (Inr res, v', w')
          \<and> size_m v' = 3 \<and> elems v' w' ! 1 = Some 10
          \<and> elems v' w' = [Some 1, Some 10, Some 2]"
    by (simp add: examples_ok)
  moreover have "(if Capacity v12 = 0 then 1 else 2 * Capacity v12) * sizeof_T T_copyable
      < 2 ^ 64"
    by (simp add: examples_ok)
  ultimately show ?thesis using h(1,2,3) g f by blast
qed

text \<open>
  C10. Under the same conditions the iterator returned by \<^verbatim>\<open>Insert\<close> and \<^verbatim>\<open>Emplace\<close> is
  \<^verbatim>\<open>begin() + i\<close> of the vector after the call, and the slot it points to holds the
  inserted value; \<^verbatim>\<open>EmplaceBack\<close> returns the address of the last element after the call,
  which holds the new value. When nothing throws each of the three calls returns such an
  iterator.
\<close>

theorem Insert_returns_position:
  assumes "vector_ok T v w" and "0 < sizeof_T T" and "i \<le> size_m v"
    and "size_m v = Capacity v \<longrightarrow>
           (if Capacity v = 0 then 1 else 2 * Capacity v) * sizeof_T T < 2 ^ 64"
  shows "(\<forall>res v' w'. Insert T (iter v i) x v w = (Inr res, v', w') \<longrightarrow>
            res = iter v' i \<and> load w' res = Some x)
    \<and> (\<forall>res v' w'. Emplace T (iter v i) x v w = (Inr res, v', w') \<longrightarrow>
            res = iter v' i \<and> load w' res = Some x)
    \<and> (\<forall>res v' w'. EmplaceBack T x v w = (Inr res, v', w') \<longrightarrow>
            res = iter v' (size_m v' - 1) \<and> size_m v' = size_m v + 1
            \<and> load w' res = Some x \<and> last (elems v' w') = Some x)
    \<and> (faults w = [] \<longrightarrow>
          (\<exists>res v' w'. Insert T (iter v i) x v w = (Inr res, v', w'))
          \<and> (\<exists>res v' w'. Emplace T (iter v i) x v w = (Inr res, v', w'))
          \<and> (\<exists>res v' w'. EmplaceBack T x v w = (Inr res, v', w')))"
proof -
  have main: "res = iter v' j \<and> load w' res = Some x \<and> size_m v' = size_m v + 1
      \<and> elems v' w' = take j (elems v w) @ Some x # drop j (elems v w)"
    if r: "EmplaceShared T (iter v j) x v w = (Inr res, v', w')" and j: "j \<le> size_m v"
    for res v' w' j
  proof -
    note e = EmplaceShared_Inr [OF assms(1,2) j assms(4) r]
    have "j < size_m v'" using e(1) j by simp
    from elems_nth_iter [OF e(6) this, of w']
    have "load w' (iter v' j) = elems v' w' ! j" by simp
    also have "\<dots> = Some x"
      unfolding e(5) using j by (simp add: nth_append)
    finally show ?thesis using e(1,4,5) by simp
  qed
  have eb: "EmplaceBack T x v w = EmplaceShared T (iter v (size_m v)) x v w"
    by (simp add: EmplaceBack_def end_it_ok [OF assms(1)])
  have ins: "res = iter v' i \<and> load w' res = Some x"
    if "Insert T (iter v i) x v w = (Inr res, v', w')" for res v' w'
  proof -
    from that have "EmplaceShared T (iter v i) x v w = (Inr res, v', w')"
      by (simp add: Insert_def)
    from main [OF this assms(3)] show ?thesis by blast
  qed
  have emp: "res = iter v' i \<and> load w' res = Some x"
    if "Emplace T (iter v i) x v w = (Inr res, v', w')" for res v' w'
  proof -
    from that have "EmplaceShared T (iter v i) x v w = (Inr res, v', w')"
      by (simp add: Emplace_def)
    from main [OF this assms(3)] show ?thesis by blast
  qed
  have ebk: "res = iter v' (size_m v' - 1) \<and> size_m v' = size_m v + 1
            \<and> load w' res = Some x \<and> last (elems v' w') = Some x"
    if "EmplaceBack T x v w = (Inr res, v', w')" for res v' w'
  proof -
    from that have "EmplaceShared T (iter v (size_m v)) x v w = (Inr res, v', w')"
      by (simp add: eb)
    from main [OF this le_refl]
    have m: "res = iter v' (size_m v)" "load w' res = Some x" "size_m v' = size_m v + 1"
      "elems v' w' = elems v w @ [Some x]"
      by auto
    have "res = iter v' (size_m v' - 1)" using m(1,3) by simp
    moreover have "last (elems v' w') = Some x" by (simp add: m(4))
    ultimately show ?thesis using m(2,3) by blast
  qed
  have ret: "(\<exists>res v' w'. Insert T (iter v i) x v w = (Inr res, v', w'))
          \<and> (\<exists>res v' w'. Emplace T (iter v i) x v w = (Inr res, v', w'))
          \<and> (\<exists>res v' w'. EmplaceBack T x v w = (Inr res, v', w'))"
    if q: "faults w = []"
  proof -
    from EmplaceShared_quiet [OF assms q, of x]
    have "\<exists>res v' w'. EmplaceShared T (iter v i) x v w = (Inr res, v', w')" by blast
    moreover from EmplaceShared_quiet [OF assms(1,2) le_refl assms(4) q, of x]
    have "\<exists>res v' w'. EmplaceShared T (iter v (size_m v)) x v w = (Inr res, v', w')"
      by blast
    ultimately show ?thesis by (simp add: Insert_def Emplace_def eb)
  qed
  from ins emp ebk ret show ?thesis by blast
qed

lemma EmplaceBack_example:
  "EmplaceBack T_copyable 10 v12 (w12 []) =
     (Inr (Ptr 1 2), \<lparr>data_m = \<lparr>buffer_m = Ptr 1 0, capacity_m = 4\<rparr>, size_m = 3\<rparr>,
      \<lparr>heap = [None, Some [Some 1, Some 2, Some 10, None]], faults = []\<rparr>)"
  by (simp add: run_defs T_copyable_def v12_def w12_def)

lemma Emplace_example:
  "Emplace T_copyable (iter v12 1) 10 v12 (w12 []) =
     (Inr (Ptr 1 1), \<lparr>data_m = \<lparr>buffer_m = Ptr 1 0, capacity_m = 4\<rparr>, size_m = 3\<rparr>,
      \<lparr>heap = [None, Some [Some 1, Some 10, Some 2, None]], faults = []\<rparr>)"
  "Emplace T_copyable (iter v123 1) 10 v123 (w123 []) =
     (Inr (Ptr 0 1), \<lparr>data_m = \<lparr>buffer_m = Ptr 0 0, capacity_m = 4\<rparr>, size_m = 4\<rparr>,
      \<lparr>heap = [Some [Some 1, Some 10, Some 2, Some 3]], faults = []\<rparr>)"
  by (simp_all add: run_defs T_copyable_def v12_def w12_def v123_def w123_def)

theorem Insert_returns_position_witness:
  "vector_ok T_copyable v12 (w12 []) \<and> 0 < sizeof_T T_copyable \<and> 1 \<le> size_m v12
    \<and> (if Capacity v12 = 0 then 1 else 2 * Capacity v12) * sizeof_T T_copyable < 2 ^ 64
    \<and> size_m v12 = Capacity v12 \<and> faults (w12 []) = []
    \<and> (\<exists>res v' w'. Insert T_copyable (iter v12 1) 10 v12 (w12 []) = (Inr res, v', w')
          \<and> res = iter v' 1 \<and> load w' res = Some 10)
    \<and> (\<exists>res v' w'. Emplace T_copyable (iter v12 1) 10 v12 (w12 []) = (Inr res, v', w')
          \<and> res = iter v' 1 \<and> load w' res = Some 10)
    \<and> (\<exists>res v' w'. EmplaceBack T_copyable 10 v12 (w12 []) = (Inr res, v', w')
          \<and> res = iter v' (size_m v' - 1) \<and> load w' res = Some 10)
    \<and> vector_ok T_copyable v123 (w123 []) \<and> 1 \<le> size_m v123 \<and> size_m v123 < Capacity v123
    \<and> faults (w123 []) = []
    \<and> (\<exists>res v' w'. Emplace T_copyable (iter v123 1) 10 v123 (w123 []) = (Inr res, v', w')
          \<and> res = iter v' 1 \<and> load w' res = Some 10)"
proof -
  have h: "vector_ok T_copyable v12 (w12 [])" "0 < sizeof_T T_copyable" "1 \<le> size_m v12"
    "size_m v12 = Capacity v12 \<longrightarrow>
       (if Capacity v12 = 0 then 1 else 2 * Capacity v12) * sizeof_T T_copyable < 2 ^ 64"
    by (simp_all add: examples_ok)
  have g: "vector_ok T_copyable v123 (w123 [])" "0 < sizeof_T T_copyable" "1 \<le> size_m v123"
    "size_m v123 = Capacity v123 \<longrightarrow>
       (if Capacity v123 = 0 then 1 else 2 * Capacity v123) * sizeof_T T_copyable < 2 ^ 64"
    by (simp_all add: examples_ok)
  have f: "faults (w12 []) = []" "faults (w123 []) = []" by (simp_all add: w12_def w123_def)
  note t = Insert_returns_position [OF h, of 10]
  note t' = Insert_returns_position [OF g, of 10]
  from t f(1)
  have r: "(\<exists>res v' w'. Insert T_copyable (iter v12 1) 10 v12 (w12 []) = (Inr res, v', w'))
      \<and> (\<exists>res v' w'. Emplace T_copyable (iter v12 1) 10 v12 (w12 []) = (Inr res, v', w'))
      \<and> (\<exists>res v' w'. EmplaceBack T_copyable 10 v12 (w12 []) = (Inr res, v', w'))"
    by blast
  from t r
  have a: "\<exists>res v' w'. Insert T_copyable (iter v12 1) 10 v12 (w12 []) = (Inr res, v', w')
          \<and> res = iter v' 1 \<and> load w' res = Some 10"
    by blast
  from t r
  have c: "\<exists>res v' w'. Emplace T_copyable (iter v12 1) 10 v12 (w12 []) = (Inr res, v', w')
          \<and> res = iter v' 1 \<and> load w' res = Some 10"
    by blast
  from t r
  have b: "\<exists>res v' w'. EmplaceBack T_copyable 10 v12 (w12 []) = (Inr res, v', w')
          \<and> res = iter v' (size_m v' - 1) \<and> load w' res = Some 10"
    by blast
  from t' f(2)
  have "\<exists>res v' w'. Emplace T_copyable (iter v123 1) 10 v123 (w123 []) = (Inr res, v', w')"
    by blast
  with t'
  have d: "\<exists>res v' w'. Emplace T_copyable (iter v123 1) 10 v123 (w123 []) = (Inr res, v', w')
          \<and> res = iter v' 1 \<and> load w' res = Some 10"
    by blast
  have n: "(if Capacity v12 = 0 then 1 else 2 * Capacity v12) * sizeof_T T_copyable < 2 ^ 64"
    "size_m v12 = Capacity v12" "size_m v123 < Capacity v123"
    by (simp_all add: examples_ok)
  from h(1,2,3) g(1,3) n f a b c d show ?thesis by blast
qed

section \<open>Growth of the capacity\<close>

lemma PushBack_eq:
  assumes "vector_ok T v w0"
  shows "PushBack T x v w =
     (case EmplaceShared T (iter v (size_m v)) x v w of
        (Inl e, v1, w1) \<Rightarrow> (Inl e, v1, w1)
      | (Inr res, v1, w1) \<Rightarrow> (Inr (), v1, w1))"
  by (simp add: PushBack_def end_it_ok [OF assms])

lemma PushBack_Inr:
  assumes ok: "vector_ok T v w" and T: "0 < sizeof_T T"
    and nw: "size_m v = Capacity v \<longrightarrow>
             (if Capacity v = 0 then 1 else 2 * Capacity v) * sizeof_T T < 2 ^ 64"
    and r: "PushBack T x v w = (Inr u, v', w')"
  shows "size_m v' = Suc (size_m v)"
    and "Capacity v' = (if size_m v = Capacity v
                        then (if Capacity v = 0 then 1 else 2 * Capacity v) else Capacity v)"
    and "elems v' w' = elems v w @ [Some x]"
    and "vector_ok T v' w'"
proof -
  obtain res where e: "EmplaceShared T (iter v (size_m v)) x v w = (Inr res, v', w')"
  proof (cases "EmplaceShared T (iter v (size_m v)) x v w")
    case (fields rr v1 w1)
    with r that show ?thesis
      by (cases rr) (simp_all add: PushBack_eq [OF ok])
  qed
  note e1 = EmplaceShared_Inr [OF ok T le_refl nw e]
  show "size_m v' = Suc (size_m v)" by (rule e1(1))
  show "Capacity v' = (if size_m v = Capacity v
                        then (if Capacity v = 0 then 1 else 2 * Capacity v) else Capacity v)"
    by (rule e1(2))
  show "elems v' w' = elems v w @ [Some x]" using e1(5) by simp
  show "vector_ok T v' w'" by (rule e1(6))
qed

lemma PushBack_quiet:
  assumes ok: "vector_ok T v w" and T: "0 < sizeof_T T"
    and nw: "size_m v = Capacity v \<longrightarrow>
             (if Capacity v = 0 then 1 else 2 * Capacity v) * sizeof_T T < 2 ^ 64"
    and q: "faults w = []"
  shows "\<exists>v' w'. PushBack T x v w = (Inr (), v', w') \<and> faults w' = []"
proof -
  from EmplaceShared_quiet [OF ok T le_refl nw q, of x] obtain res v' w' where
    "EmplaceShared T (iter v (size_m v)) x v w = (Inr res, v', w')" "faults w' = []"
    by blast
  then show ?thesis by (simp add: PushBack_eq [OF ok])
qed

text \<open>
  The capacities reached by appending: 0 for the empty vector, otherwise the power of two
  \<open>c\<close> with \<open>size \<le> c < 2 * size\<close>.
\<close>

lemma grow_step:
  fixes s c :: nat
  assumes "s \<le> c" and "(s = 0 \<and> c = 0) \<or> (\<exists>k. c = 2 ^ k \<and> c < 2 * s)"
    and "c' = (if s = c then (if c = 0 then 1 else 2 * c) else c)"
  shows "\<exists>k. c' = 2 ^ k \<and> c' < 2 * Suc s"
proof (cases "c = 0")
  case True
  with assms have "c' = 2 ^ 0" by auto
  then show ?thesis by (intro exI [of _ 0]) simp
next
  case False
  with assms(1,2) obtain k where k: "c = 2 ^ k" "c < 2 * s" by auto
  show ?thesis
  proof (cases "s = c")
    case True
    with False assms(3) k have "c' = 2 ^ Suc k" by simp
    moreover have "c' < 2 * Suc s" using True False assms(3) by simp
    ultimately show ?thesis by blast
  next
    case False
    with assms(3) k show ?thesis by auto
  qed
qed

lemma step_bound:
  fixes s c n t :: nat
  assumes "s \<le> c" and "(s = 0 \<and> c = 0) \<or> (\<exists>k. c = 2 ^ k \<and> c < 2 * s)"
    and "2 * (s + Suc n) * t < 2 ^ 64"
  shows "s = c \<longrightarrow> (if c = 0 then 1 else 2 * c) * t < 2 ^ 64"
proof
  assume "s = c"
  then have "(if c = 0 then 1 else 2 * c) \<le> 2 * (s + Suc n)" by simp
  then have "(if c = 0 then 1 else 2 * c) * t \<le> 2 * (s + Suc n) * t"
    by (rule mult_le_mono1)
  with assms(3) show "(if c = 0 then 1 else 2 * c) * t < 2 ^ 64" by linarith
qed

lemma push_all_Inr:
  assumes "push_all T xs v w = (Inr u, v', w')" and "vector_ok T v w" and "0 < sizeof_T T"
    and "2 * (size_m v + length xs) * sizeof_T T < 2 ^ 64"
    and "(size_m v = 0 \<and> Capacity v = 0) \<or> (\<exists>k. Capacity v = 2 ^ k \<and> Capacity v < 2 * size_m v)"
  shows "size_m v' = size_m v + length xs \<and> vector_ok T v' w'
    \<and> elems v' w' = elems v w @ map Some xs
    \<and> ((size_m v' = 0 \<and> Capacity v' = 0)
        \<or> (\<exists>k. Capacity v' = 2 ^ k \<and> Capacity v' < 2 * size_m v'))"
  using assms
proof (induction xs arbitrary: v w)
  case Nil
  then show ?case by simp
next
  case (Cons x xs)
  have sc: "size_m v \<le> Capacity v"
    using wf_size(1) [OF Cons.prems(2)] by (simp add: Capacity_def RawMemory_Capacity_def)
  have b: "2 * (size_m v + Suc (length xs)) * sizeof_T T < 2 ^ 64"
    using Cons.prems(4) by simp
  note nw = step_bound [OF sc Cons.prems(5) b]
  obtain v1 w1 where p: "PushBack T x v w = (Inr (), v1, w1)"
    and r: "push_all T xs v1 w1 = (Inr u, v', w')"
  proof (cases "PushBack T x v w")
    case (fields rr v1 w1)
    with Cons.prems(1) that show ?thesis by (cases rr) simp_all
  qed
  note p1 = PushBack_Inr [OF Cons.prems(2,3) nw p]
  from grow_step [OF sc Cons.prems(5) p1(2)]
  have inv: "(size_m v1 = 0 \<and> Capacity v1 = 0)
      \<or> (\<exists>k. Capacity v1 = 2 ^ k \<and> Capacity v1 < 2 * size_m v1)"
    by (simp add: p1(1))
  have b1: "2 * (size_m v1 + length xs) * sizeof_T T < 2 ^ 64"
    using b by (simp add: p1(1))
  from Cons.IH [OF r p1(4) Cons.prems(3) b1 inv] show ?case
    by (auto simp: p1(1,3))
qed

lemma push_all_quiet:
  assumes "faults w = []" and "vector_ok T v w" and "0 < sizeof_T T"
    and "2 * (size_m v + length xs) * sizeof_T T < 2 ^ 64"
    and "(size_m v = 0 \<and> Capacity v = 0) \<or> (\<exists>k. Capacity v = 2 ^ k \<and> Capacity v < 2 * size_m v)"
  shows "\<exists>v' w'. push_all T xs v w = (Inr (), v', w')"
  using assms
proof (induction xs arbitrary: v w)
  case Nil
  then show ?case by simp
next
  case (Cons x xs)
  have sc: "size_m v \<le> Capacity v"
    using wf_size(1) [OF Cons.prems(2)] by (simp add: Capacity_def RawMemory_Capacity_def)
  have b: "2 * (size_m v + Suc (length xs)) * sizeof_T T < 2 ^ 64"
    using Cons.prems(4) by simp
  note nw = step_bound [OF sc Cons.prems(5) b]
  from PushBack_quiet [OF Cons.prems(2,3) nw Cons.prems(1), of x] obtain v1 w1 where
    p: "PushBack T x v w = (Inr (), v1, w1)" and q1: "faults w1 = []" by blast
  note p1 = PushBack_Inr [OF Cons.prems(2,3) nw p]
  from grow_step [OF sc Cons.prems(5) p1(2)]
  have inv: "(size_m v1 = 0 \<and> Capacity v1 = 0)
      \<or> (\<exists>k. Capacity v1 = 2 ^ k \<and> Capacity v1 < 2 * size_m v1)"
    by (simp add: p1(1))
  have b1: "2 * (size_m v1 + length xs) * sizeof_T T < 2 ^ 64"
    using b by (simp add: p1(1))
  from Cons.IH [OF q1 p1(4) Cons.prems(3) b1 inv] p show ?case by simp
qed

text \<open>
  C2. When an insertion or an append finds the size equal to the capacity (and the byte
  size of the doubled storage fits \<^verbatim>\<open>size_t\<close>), the vector has afterwards capacity 1 if
  the capacity was 0 and twice the old capacity otherwise, and its storage is a block of
  that many slots. Hence \<open>n\<close> appends to an empty vector, when they all return, leave the
  size \<open>n\<close> and, for \<open>n > 0\<close>, as capacity the power of two \<open>c\<close> with \<open>n \<le> c < 2 * n\<close>:
  the capacities met are 0, 1, 2, 4, 8, ... When nothing throws the appends return.
\<close>

theorem capacity_growth:
  assumes "0 < sizeof_T T"
  shows "(\<forall>v w i x res v' w'.
            vector_ok T v w \<and> i \<le> size_m v \<and> size_m v = Capacity v
            \<and> (if Capacity v = 0 then 1 else 2 * Capacity v) * sizeof_T T < 2 ^ 64
            \<and> Insert T (iter v i) x v w = (Inr res, v', w') \<longrightarrow>
            Capacity v' = (if Capacity v = 0 then 1 else 2 * Capacity v) \<and> vector_ok T v' w')
    \<and> (\<forall>v w x u v' w'.
            vector_ok T v w \<and> size_m v = Capacity v
            \<and> (if Capacity v = 0 then 1 else 2 * Capacity v) * sizeof_T T < 2 ^ 64
            \<and> PushBack T x v w = (Inr u, v', w') \<longrightarrow>
            Capacity v' = (if Capacity v = 0 then 1 else 2 * Capacity v) \<and> vector_ok T v' w')
    \<and> (\<forall>xs w u v' w'.
            2 * length xs * sizeof_T T < 2 ^ 64
            \<and> push_all T xs Vector_default w = (Inr u, v', w') \<longrightarrow>
            size_m v' = length xs \<and> elems v' w' = map Some xs
            \<and> (xs = [] \<longrightarrow> Capacity v' = 0)
            \<and> (xs \<noteq> [] \<longrightarrow>
                 (\<exists>k. Capacity v' = 2 ^ k \<and> length xs \<le> Capacity v'
                      \<and> Capacity v' < 2 * length xs)))
    \<and> (\<forall>xs w. 2 * length xs * sizeof_T T < 2 ^ 64 \<and> faults w = [] \<longrightarrow>
            (\<exists>v' w'. push_all T xs Vector_default w = (Inr (), v', w')))"
proof (intro conjI allI impI)
  fix v w i x res v' w'
  assume a: "vector_ok T v w \<and> i \<le> size_m v \<and> size_m v = Capacity v
            \<and> (if Capacity v = 0 then 1 else 2 * Capacity v) * sizeof_T T < 2 ^ 64
            \<and> Insert T (iter v i) x v w = (Inr res, v', w')"
  then have r: "EmplaceShared T (iter v i) x v w = (Inr res, v', w')"
    by (simp add: Insert_def)
  from a have nw: "size_m v = Capacity v \<longrightarrow>
      (if Capacity v = 0 then 1 else 2 * Capacity v) * sizeof_T T < 2 ^ 64" by blast
  from a have ok: "vector_ok T v w" and i: "i \<le> size_m v" by blast+
  note e = EmplaceShared_Inr [OF ok assms i nw r]
  show "Capacity v' = (if Capacity v = 0 then 1 else 2 * Capacity v)"
    using e(2) a by simp
  show "vector_ok T v' w'" by (rule e(6))
next
  fix v w x u v' w'
  assume a: "vector_ok T v w \<and> size_m v = Capacity v
            \<and> (if Capacity v = 0 then 1 else 2 * Capacity v) * sizeof_T T < 2 ^ 64
            \<and> PushBack T x v w = (Inr u, v', w')"
  from a have nw: "size_m v = Capacity v \<longrightarrow>
      (if Capacity v = 0 then 1 else 2 * Capacity v) * sizeof_T T < 2 ^ 64" by blast
  from a have ok: "vector_ok T v w" and r: "PushBack T x v w = (Inr u, v', w')" by blast+
  note e = PushBack_Inr [OF ok assms nw r]
  show "Capacity v' = (if Capacity v = 0 then 1 else 2 * Capacity v)"
    using e(2) a by simp
  show "vector_ok T v' w'" by (rule e(4))
next
  fix xs w u v' w'
  assume a: "2 * length xs * sizeof_T T < 2 ^ 64
            \<and> push_all T xs Vector_default w = (Inr u, v', w')"
  have z: "size_m Vector_default = 0" "Capacity Vector_default = 0"
    "elems Vector_default w = []"
    by (simp_all add: Vector_default_def RawMemory_default_def Capacity_def
        RawMemory_Capacity_def elems_def)
  from a have r: "push_all T xs Vector_default w = (Inr u, v', w')" by blast
  from a have b: "2 * (size_m Vector_default + length xs) * sizeof_T T < 2 ^ 64"
    by (simp add: z)
  have inv: "(size_m Vector_default = 0 \<and> Capacity Vector_default = 0)
      \<or> (\<exists>k. Capacity Vector_default = 2 ^ k
              \<and> Capacity Vector_default < 2 * size_m Vector_default)"
    by (simp add: z)
  from push_all_Inr [OF r wf_Vector_default assms b inv]
  have p: "size_m v' = length xs" "vector_ok T v' w'" "elems v' w' = map Some xs"
    "(size_m v' = 0 \<and> Capacity v' = 0)
        \<or> (\<exists>k. Capacity v' = 2 ^ k \<and> Capacity v' < 2 * size_m v')"
    by (auto simp: z)
  have sc: "size_m v' \<le> Capacity v'"
    using wf_size(1) [OF p(2)] by (simp add: Capacity_def RawMemory_Capacity_def)
  show "size_m v' = length xs" by (rule p(1))
  show "elems v' w' = map Some xs" by (rule p(3))
  show "Capacity v' = 0" if "xs = []" using that p(1,4) by auto
  show "\<exists>k. Capacity v' = 2 ^ k \<and> length xs \<le> Capacity v' \<and> Capacity v' < 2 * length xs"
    if "xs \<noteq> []"
    using that p(1,4) sc by auto
next
  fix xs :: "'a list" and w :: "'a world"
  assume a: "2 * length xs * sizeof_T T < 2 ^ 64 \<and> faults w = []"
  have z: "size_m Vector_default = 0" "Capacity Vector_default = 0"
    by (simp_all add: Vector_default_def RawMemory_default_def Capacity_def
        RawMemory_Capacity_def)
  from a have q: "faults w = []" by blast
  from a have b: "2 * (size_m Vector_default + length xs) * sizeof_T T < 2 ^ 64"
    by (simp add: z)
  have inv: "(size_m Vector_default = 0 \<and> Capacity Vector_default = 0)
      \<or> (\<exists>k. Capacity Vector_default = 2 ^ k
              \<and> Capacity Vector_default < 2 * size_m Vector_default)"
    by (simp add: z)
  from push_all_quiet [OF q wf_Vector_default assms b inv]
  show "\<exists>v' w'. push_all T xs Vector_default w = (Inr (), v', w')" .
qed

lemma PushBack_example:
  "PushBack T_copyable 7 Vector_default \<lparr>heap = [], faults = []\<rparr> =
     (Inr (), \<lparr>data_m = \<lparr>buffer_m = Ptr 0 0, capacity_m = 1\<rparr>, size_m = 1\<rparr>,
      \<lparr>heap = [Some [Some 7]], faults = []\<rparr>)"
  "PushBack T_copyable 8 \<lparr>data_m = \<lparr>buffer_m = Ptr 0 0, capacity_m = 1\<rparr>, size_m = 1\<rparr>
      \<lparr>heap = [Some [Some 7]], faults = []\<rparr> =
     (Inr (), \<lparr>data_m = \<lparr>buffer_m = Ptr 1 0, capacity_m = 2\<rparr>, size_m = 2\<rparr>,
      \<lparr>heap = [None, Some [Some 7, Some 8]], faults = []\<rparr>)"
  "PushBack T_copyable 9 \<lparr>data_m = \<lparr>buffer_m = Ptr 1 0, capacity_m = 2\<rparr>, size_m = 2\<rparr>
      \<lparr>heap = [None, Some [Some 7, Some 8]], faults = []\<rparr> =
     (Inr (), \<lparr>data_m = \<lparr>buffer_m = Ptr 2 0, capacity_m = 4\<rparr>, size_m = 3\<rparr>,
      \<lparr>heap = [None, None, Some [Some 7, Some 8, Some 9, None]], faults = []\<rparr>)"
  "PushBack T_copyable 10 \<lparr>data_m = \<lparr>buffer_m = Ptr 2 0, capacity_m = 4\<rparr>, size_m = 3\<rparr>
      \<lparr>heap = [None, None, Some [Some 7, Some 8, Some 9, None]], faults = []\<rparr> =
     (Inr (), \<lparr>data_m = \<lparr>buffer_m = Ptr 2 0, capacity_m = 4\<rparr>, size_m = 4\<rparr>,
      \<lparr>heap = [None, None, Some [Some 7, Some 8, Some 9, Some 10]], faults = []\<rparr>)"
  "PushBack T_copyable 11 \<lparr>data_m = \<lparr>buffer_m = Ptr 2 0, capacity_m = 4\<rparr>, size_m = 4\<rparr>
      \<lparr>heap = [None, None, Some [Some 7, Some 8, Some 9, Some 10]], faults = []\<rparr> =
     (Inr (), \<lparr>data_m = \<lparr>buffer_m = Ptr 3 0, capacity_m = 8\<rparr>, size_m = 5\<rparr>,
      \<lparr>heap = [None, None, None,
               Some [Some 7, Some 8, Some 9, Some 10, Some 11, None, None, None]],
       faults = []\<rparr>)"
  by (simp_all add: run_defs T_copyable_def)

lemma push_all_example:
  "push_all T_copyable [] Vector_default \<lparr>heap = [], faults = []\<rparr> =
     (Inr (), Vector_default, \<lparr>heap = [], faults = []\<rparr>)"
  "push_all T_copyable [7] Vector_default \<lparr>heap = [], faults = []\<rparr> =
     (Inr (), \<lparr>data_m = \<lparr>buffer_m = Ptr 0 0, capacity_m = 1\<rparr>, size_m = 1\<rparr>,
      \<lparr>heap = [Some [Some 7]], faults = []\<rparr>)"
  "push_all T_copyable [7, 8] Vector_default \<lparr>heap = [], faults = []\<rparr> =
     (Inr (), \<lparr>data_m = \<lparr>buffer_m = Ptr 1 0, capacity_m = 2\<rparr>, size_m = 2\<rparr>,
      \<lparr>heap = [None, Some [Some 7, Some 8]], faults = []\<rparr>)"
  "push_all T_copyable [7, 8, 9] Vector_default \<lparr>heap = [], faults = []\<rparr> =
     (Inr (), \<lparr>data_m = \<lparr>buffer_m = Ptr 2 0, capacity_m = 4\<rparr>, size_m = 3\<rparr>,
      \<lparr>heap = [None, None, Some [Some 7, Some 8, Some 9, None]], faults = []\<rparr>)"
  "push_all T_copyable [7, 8, 9, 10, 11] Vector_default \<lparr>heap = [], faults = []\<rparr> =
     (Inr (), \<lparr>data_m = \<lparr>buffer_m = Ptr 3 0, capacity_m = 8\<rparr>, size_m = 5\<rparr>,
      \<lparr>heap = [None, None, None,
               Some [Some 7, Some 8, Some 9, Some 10, Some 11, None, None, None]],
       faults = []\<rparr>)"
  by (simp_all only: push_all.simps PushBack_example prod.case sum.case)

theorem capacity_growth_witness:
  "0 < sizeof_T T_copyable
    \<and> vector_ok T_copyable v12 (w12 []) \<and> size_m v12 = Capacity v12 \<and> Capacity v12 = 2
    \<and> (if Capacity v12 = 0 then 1 else 2 * Capacity v12) * sizeof_T T_copyable < 2 ^ 64
    \<and> (\<exists>res v' w'. Insert T_copyable (iter v12 1) 10 v12 (w12 []) = (Inr res, v', w')
          \<and> Capacity v' = 4)
    \<and> 2 * length [7, 8, 9, 10, 11 :: int] * sizeof_T T_copyable < 2 ^ 64
    \<and> (\<exists>v' w'. push_all T_copyable [7, 8, 9, 10, 11] Vector_default \<lparr>heap = [], faults = []\<rparr>
                 = (Inr (), v', w')
          \<and> size_m v' = 5 \<and> Capacity v' = 8
          \<and> (\<exists>k. Capacity v' = 2 ^ k \<and> 5 \<le> Capacity v' \<and> Capacity v' < 2 * 5))
    \<and> Capacity (fst (snd (push_all T_copyable [] Vector_default \<lparr>heap = [], faults = []\<rparr>))) = 0
    \<and> Capacity (fst (snd (push_all T_copyable [7] Vector_default \<lparr>heap = [], faults = []\<rparr>))) = 1
    \<and> Capacity (fst (snd (push_all T_copyable [7, 8] Vector_default \<lparr>heap = [], faults = []\<rparr>))) = 2
    \<and> Capacity (fst (snd (push_all T_copyable [7, 8, 9] Vector_default \<lparr>heap = [], faults = []\<rparr>))) = 4"
proof -
  have h: "0 < sizeof_T T_copyable" by (simp add: examples_ok)
  have g: "vector_ok T_copyable v12 (w12 [])" "size_m v12 = Capacity v12" "Capacity v12 = 2"
    "(if Capacity v12 = 0 then 1 else 2 * Capacity v12) * sizeof_T T_copyable < 2 ^ 64"
    "1 \<le> size_m v12" "2 * length [7, 8, 9, 10, 11 :: int] * sizeof_T T_copyable < 2 ^ 64"
    by (simp_all add: examples_ok)
  have i: "Insert T_copyable (iter v12 1) 10 v12 (w12 []) =
     (Inr (Ptr 1 1), \<lparr>data_m = \<lparr>buffer_m = Ptr 1 0, capacity_m = 4\<rparr>, size_m = 3\<rparr>,
      \<lparr>heap = [None, Some [Some 1, Some 10, Some 2, None]], faults = []\<rparr>)"
    by (rule Insert_example_realloc)
  note t = capacity_growth [OF h]
  from t g(1,2,4,5) i
  have "Capacity \<lparr>data_m = \<lparr>buffer_m = Ptr 1 0, capacity_m = 4\<rparr>, size_m = 3\<rparr>
          = (if Capacity v12 = 0 then 1 else 2 * Capacity v12)"
    by blast
  with i
  have a: "\<exists>res v' w'. Insert T_copyable (iter v12 1) 10 v12 (w12 []) = (Inr res, v', w')
          \<and> Capacity v' = 4"
    by (simp add: g(3))
  from t g(6) push_all_example(5)
  have "size_m \<lparr>data_m = \<lparr>buffer_m = Ptr 3 0, capacity_m = 8\<rparr>, size_m = 5\<rparr>
          = length [7, 8, 9, 10, 11 :: int]
      \<and> (\<exists>k. Capacity \<lparr>data_m = \<lparr>buffer_m = Ptr 3 0, capacity_m = 8\<rparr>, size_m = 5\<rparr> = 2 ^ k
           \<and> length [7, 8, 9, 10, 11 :: int]
               \<le> Capacity \<lparr>data_m = \<lparr>buffer_m = Ptr 3 0, capacity_m = 8\<rparr>, size_m = 5\<rparr>
           \<and> Capacity \<lparr>data_m = \<lparr>buffer_m = Ptr 3 0, capacity_m = 8\<rparr>, size_m = 5\<rparr>
               < 2 * length [7, 8, 9, 10, 11 :: int])"
    by blast
  with push_all_example(5)
  have b: "\<exists>v' w'. push_all T_copyable [7, 8, 9, 10, 11] Vector_default \<lparr>heap = [], faults = []\<rparr>
                 = (Inr (), v', w')
          \<and> size_m v' = 5 \<and> Capacity v' = 8
          \<and> (\<exists>k. Capacity v' = 2 ^ k \<and> 5 \<le> Capacity v' \<and> Capacity v' < 2 * 5)"
    by (simp add: Capacity_def RawMemory_Capacity_def)
  have c: "Capacity (fst (snd (push_all T_copyable [] Vector_default \<lparr>heap = [], faults = []\<rparr>))) = 0"
    "Capacity (fst (snd (push_all T_copyable [7] Vector_default \<lparr>heap = [], faults = []\<rparr>))) = 1"
    "Capacity (fst (snd (push_all T_copyable [7, 8] Vector_default \<lparr>heap = [], faults = []\<rparr>))) = 2"
    "Capacity (fst (snd (push_all T_copyable [7, 8, 9] Vector_default \<lparr>heap = [], faults = []\<rparr>))) = 4"
    unfolding push_all_example
    by (simp_all add: Capacity_def RawMemory_Capacity_def
        Vector_default_def RawMemory_default_def)
  from h g a b c show ?thesis by blast
qed

section \<open>The strong exception guarantee\<close>

text \<open>
  C1 (as stated). The claim is that whenever a copy or a move of an element throws during
  \<^verbatim>\<open>Reserve\<close> or during the reallocating branch of \<^verbatim>\<open>Insert\<close>, the size, the capacity
  and every element are afterwards what they were. For an element type that is neither
  nothrow-move-constructible nor copy-constructible the code relocates by moving, and a
  move that throws leaves the elements already moved in their moved-from state: here the
  second move throws, and the first element, which was 1, is \<open>- 1\<close> afterwards.
\<close>

theorem strong_guarantee_counterexample:
  "vector_ok T_move_only v123 (w123 [False, False, True])
    \<and> elems v123 (w123 [False, False, True]) = [Some 1, Some 2, Some 3]
    \<and> Reserve T_move_only 10 v123 (w123 [False, False, True])
        = (Inl ElemThrow, v123,
           \<lparr>heap = [Some [Some (- 1), Some 2, Some 3, None], None], faults = []\<rparr>)
    \<and> elems v123 \<lparr>heap = [Some [Some (- 1), Some 2, Some 3, None], None], faults = []\<rparr>
        = [Some (- 1), Some 2, Some 3]
    \<and> vector_ok T_move_only v12 (w12 [False, False, False, True])
    \<and> size_m v12 = Capacity v12
    \<and> elems v12 (w12 [False, False, False, True]) = [Some 1, Some 2]
    \<and> Insert T_move_only (iter v12 2) 9 v12 (w12 [False, False, False, True])
        = (Inl ElemThrow, v12, \<lparr>heap = [Some [Some (- 1), Some 2], None], faults = []\<rparr>)
    \<and> elems v12 \<lparr>heap = [Some [Some (- 1), Some 2], None], faults = []\<rparr>
        = [Some (- 1), Some 2]"
  by (simp add: run_defs T_move_only_def v123_def w123_def v12_def w12_def)

text \<open>
  C1 (amended). For an element type that is nothrow-move-constructible or
  copy-constructible, so that a relocation that can throw is a copy: when \<^verbatim>\<open>Reserve\<close>, or
  \<^verbatim>\<open>Insert\<close> or \<^verbatim>\<open>Emplace\<close> on a full vector, ends with an exception, whatever the point
  at which the allocation or an element operation threw, the vector object is unchanged
  (its storage pointer, capacity and size), every element has its old value, and the
  vector is still well-formed. The requests are those whose byte size fits \<^verbatim>\<open>size_t\<close>.
\<close>

theorem strong_guarantee:
  assumes "vector_ok T v w" and "0 < sizeof_T T"
    and "is_nothrow_move_constructible T \<or> is_copy_constructible T"
  shows "(\<forall>n e v' w'. n * sizeof_T T < 2 ^ 64 \<and> Reserve T n v w = (Inl e, v', w') \<longrightarrow>
            v' = v \<and> elems v' w' = elems v w \<and> vector_ok T v' w')
    \<and> (\<forall>i x e v' w'. i \<le> size_m v \<and> size_m v = Capacity v
            \<and> (if Capacity v = 0 then 1 else 2 * Capacity v) * sizeof_T T < 2 ^ 64
            \<and> (Insert T (iter v i) x v w = (Inl e, v', w')
                \<or> Emplace T (iter v i) x v w = (Inl e, v', w')) \<longrightarrow>
            v' = v \<and> elems v' w' = elems v w \<and> vector_ok T v' w')"
proof (intro conjI allI impI)
  fix n e v' w'
  assume a: "n * sizeof_T T < 2 ^ 64 \<and> Reserve T n v w = (Inl e, v', w')"
  then have n: "n * sizeof_T T < 2 ^ 64" and r: "Reserve T n v w = (Inl e, v', w')"
    by blast+
  note r1 = Reserve_Inl [OF assms(1,2,3) n r]
  show "v' = v" by (rule r1(1))
  show "elems v' w' = elems v w" using r1(1,2) by simp
  show "vector_ok T v' w'" using r1(1,3) by simp
next
  fix i x e v' w'
  assume a: "i \<le> size_m v \<and> size_m v = Capacity v
            \<and> (if Capacity v = 0 then 1 else 2 * Capacity v) * sizeof_T T < 2 ^ 64
            \<and> (Insert T (iter v i) x v w = (Inl e, v', w')
                \<or> Emplace T (iter v i) x v w = (Inl e, v', w'))"
  then have i: "i \<le> size_m v" and full: "size_m v = Capacity v"
    and nw: "(if Capacity v = 0 then 1 else 2 * Capacity v) * sizeof_T T < 2 ^ 64"
    and r: "EmplaceShared T (iter v i) x v w = (Inl e, v', w')"
    by (auto simp: Insert_def Emplace_def)
  note r1 = EmplaceShared_Inl [OF assms(1,2) i assms(3) full nw r]
  show "v' = v" by (rule r1(1))
  show "elems v' w' = elems v w" using r1(1,2) by simp
  show "vector_ok T v' w'" using r1(1,3) by simp
qed

lemma strong_guarantee_example:
  "Reserve T_copyable 10 v123 (w123 [False, False, True])
     = (Inl ElemThrow, v123, \<lparr>heap = [Some [Some 1, Some 2, Some 3, None], None], faults = []\<rparr>)"
  "Insert T_copyable (iter v12 1) 9 v12 (w12 [False, False, False, True])
     = (Inl ElemThrow, v12, \<lparr>heap = [Some [Some 1, Some 2], None], faults = []\<rparr>)"
  by (simp_all add: run_defs T_copyable_def v123_def w123_def v12_def w12_def)

theorem strong_guarantee_witness:
  "vector_ok T_copyable v123 (w123 [False, False, True]) \<and> 0 < sizeof_T T_copyable
    \<and> (is_nothrow_move_constructible T_copyable \<or> is_copy_constructible T_copyable)
    \<and> 10 * sizeof_T T_copyable < 2 ^ 64
    \<and> (\<exists>e w'. Reserve T_copyable 10 v123 (w123 [False, False, True]) = (Inl e, v123, w')
          \<and> elems v123 w' = elems v123 (w123 [False, False, True])
          \<and> elems v123 w' = [Some 1, Some 2, Some 3])
    \<and> vector_ok T_copyable v12 (w12 [False, False, False, True])
    \<and> 1 \<le> size_m v12 \<and> size_m v12 = Capacity v12
    \<and> (if Capacity v12 = 0 then 1 else 2 * Capacity v12) * sizeof_T T_copyable < 2 ^ 64
    \<and> (\<exists>e w'. Insert T_copyable (iter v12 1) 9 v12 (w12 [False, False, False, True])
                 = (Inl e, v12, w')
          \<and> elems v12 w' = elems v12 (w12 [False, False, False, True])
          \<and> elems v12 w' = [Some 1, Some 2])"
proof -
  have h1: "vector_ok T_copyable v123 (w123 [False, False, True])" "0 < sizeof_T T_copyable"
    "is_nothrow_move_constructible T_copyable \<or> is_copy_constructible T_copyable"
    by (simp_all add: examples_ok) (simp add: T_copyable_def)
  have h2: "vector_ok T_copyable v12 (w12 [False, False, False, True])"
    by (simp add: examples_ok)
  have g: "10 * sizeof_T T_copyable < 2 ^ 64" "1 \<le> size_m v12" "size_m v12 = Capacity v12"
    "(if Capacity v12 = 0 then 1 else 2 * Capacity v12) * sizeof_T T_copyable < 2 ^ 64"
    by (simp_all add: examples_ok)
  from strong_guarantee [OF h1] g(1) strong_guarantee_example(1)
  have "elems v123 \<lparr>heap = [Some [Some 1, Some 2, Some 3, None], None], faults = []\<rparr>
      = elems v123 (w123 [False, False, True])"
    by blast
  with strong_guarantee_example(1)
  have a: "\<exists>e w'. Reserve T_copyable 10 v123 (w123 [False, False, True]) = (Inl e, v123, w')
          \<and> elems v123 w' = elems v123 (w123 [False, False, True])
          \<and> elems v123 w' = [Some 1, Some 2, Some 3]"
    by (simp add: examples_ok)
  from strong_guarantee [OF h2 h1(2,3)] g(2,3,4) strong_guarantee_example(2)
  have "elems v12 \<lparr>heap = [Some [Some 1, Some 2], None], faults = []\<rparr>
      = elems v12 (w12 [False, False, False, True])"
    by blast
  with strong_guarantee_example(2)
  have b: "\<exists>e w'. Insert T_copyable (iter v12 1) 9 v12 (w12 [False, False, False, True])
                 = (Inl e, v12, w')
          \<and> elems v12 w' = elems v12 (w12 [False, False, False, True])
          \<and> elems v12 w' = [Some 1, Some 2]"
    by (simp add: examples_ok)
  from h1 h2 g a b show ?thesis by blast
qed

section \<open>Resize\<close>

lemma Reserve_ok:
  assumes ok: "vector_ok T v w" and T: "0 < sizeof_T T"
    and nw: "Capacity v < n \<longrightarrow> n * sizeof_T T < 2 ^ 64"
    and r: "Reserve T n v w = (Inr u, v1, w1)"
  shows "vector_ok T v1 w1" and "size_m v1 = size_m v" and "elems v1 w1 = elems v w"
    and "Capacity v1 = (if n \<le> Capacity v then Capacity v else n)"
proof -
  have "vector_ok T v1 w1 \<and> size_m v1 = size_m v \<and> elems v1 w1 = elems v w
    \<and> Capacity v1 = (if n \<le> Capacity v then Capacity v else n)"
  proof (cases "n \<le> Capacity v")
    case True
    with r ok show ?thesis by (simp add: Reserve_noop)
  next
    case False
    then have c: "Capacity v < n" by simp
    with nw have n: "n * sizeof_T T < 2 ^ 64" by simp
    note r1 = Reserve_Inr [OF ok T c n r]
    show ?thesis
      using r1(2,3) False by (simp add: r1(1) Capacity_def RawMemory_Capacity_def)
  qed
  then show "vector_ok T v1 w1" and "size_m v1 = size_m v" and "elems v1 w1 = elems v w"
    and "Capacity v1 = (if n \<le> Capacity v then Capacity v else n)"
    by simp_all
qed

lemma Resize_grow_eq:
  assumes "size_m v < n"
  shows "Resize T n v w =
     (case Reserve T n v w of
        (Inl e, v1, w1) \<Rightarrow> (Inl e, v1, w1)
      | (Inr u, v1, w1) \<Rightarrow>
          (case uninitialized_value_construct_n T
                  (ptr_add (buffer_m (data_m v1)) (int (size_m v1)))
                  (n - size_m v1) w1 of
             (Inl e, w2) \<Rightarrow> (Inl e, v1, w2)
           | (Inr u, w2) \<Rightarrow> (Inr (), v1\<lparr>size_m := n\<rparr>, w2)))"
  using assms by (simp add: Resize_def GetAddress_def cong: sum.case_cong prod.case_cong)

lemma Resize_Inr:
  assumes ok: "vector_ok T v w" and T: "0 < sizeof_T T"
    and nw: "Capacity v < n \<longrightarrow> n * sizeof_T T < 2 ^ 64"
    and r: "Resize T n v w = (Inr u, v', w')"
  shows "size_m v' = n"
    and "Capacity v' = (if n \<le> Capacity v then Capacity v else n)"
    and "vector_ok T v' w'"
    and "n \<le> size_m v \<Longrightarrow> elems v' w' = take n (elems v w)"
    and "n \<le> size_m v \<Longrightarrow> n \<le> k \<Longrightarrow> k < size_m v \<Longrightarrow> load w' (iter v k) = None"
    and "size_m v < n \<Longrightarrow>
           elems v' w' = elems v w @ replicate (n - size_m v) (Some (value_init T))"
proof -
  have sc: "size_m v \<le> Capacity v"
    using wf_size(1) [OF ok] by (simp add: Capacity_def RawMemory_Capacity_def)
  have "size_m v' = n \<and> Capacity v' = (if n \<le> Capacity v then Capacity v else n)
    \<and> vector_ok T v' w'
    \<and> (n \<le> size_m v \<longrightarrow> elems v' w' = take n (elems v w)
          \<and> (\<forall>k. n \<le> k \<and> k < size_m v \<longrightarrow> load w' (iter v k) = None))
    \<and> (size_m v < n \<longrightarrow>
           elems v' w' = elems v w @ replicate (n - size_m v) (Some (value_init T)))"
  proof -
    consider "n = size_m v" | "n < size_m v" | "size_m v < n" by arith
    then show ?thesis
    proof cases
      case 1
      with r have "v' = v" "w' = w" by (simp_all add: Resize_def)
      with 1 ok sc show ?thesis by auto
    next
      case 2
      with r have v': "v' = v\<lparr>size_m := n\<rparr>"
        and w': "w' = destroy_n (ptr_add (buffer_m (data_m v)) (int n)) (size_m v - n) w"
        by (simp_all add: Resize_def GetAddress_def)
      from 2 wf_Null(2) [OF ok] obtain a j where p: "buffer_m (data_m v) = Ptr a j"
        by (cases "buffer_m (data_m v)") auto
      note p1 = wf_Ptr [OF ok p]
      have it: "iter v j = Ptr a j" for j by (rule iter_Ptr [OF ok p])
      have ld: "load w' (Ptr a k) = (if n \<le> k \<and> k < size_m v then None else load w (Ptr a k))"
        for k
        using 2 by (auto simp: w' p p1(1) load_destroy_n)
      have el: "elems v' w' ! k = elems v w ! k" if "k < n" for k
        using that 2 by (simp add: nth_elems v' p p1(1) ld)
      have ok': "vector_ok T v' w'"
      proof (rule wf_Ptr_I [where a = a])
        show "buffer_m (data_m v') = Ptr a 0" using p p1(1) by (simp add: v')
        show "0 < capacity_m (data_m v')" using p1(2) by (simp add: v')
        show "block_len w' a = Some (capacity_m (data_m v'))"
          using p1(3) by (simp add: v' w')
        show "size_m v' \<le> capacity_m (data_m v')"
          using 2 wf_size(1) [OF ok] by (simp add: v')
        show "capacity_m (data_m v') * sizeof_T T < 2 ^ 64"
          using wf_size(2) [OF ok] by (simp add: v')
        show "load w' (Ptr a k) \<noteq> None" if "k < size_m v'" for k
        proof -
          from that have kn: "k < n" by (simp add: v')
          with 2 have "k < size_m v" by simp
          from wf_live [OF ok this] kn show ?thesis
            using 2 by (simp add: ld nth_elems p p1(1))
        qed
      qed
      have "elems v' w' = take n (elems v w)"
        using 2 el by (intro nth_equalityI) (simp_all add: v')
      with 2 ok' sc show ?thesis
        by (simp add: v' it ld Capacity_def RawMemory_Capacity_def)
    next
      case 3
      have r': "(case Reserve T n v w of
        (Inl e, v1, w1) \<Rightarrow> (Inl e, v1, w1)
      | (Inr u, v1, w1) \<Rightarrow>
          (case uninitialized_value_construct_n T
                  (ptr_add (buffer_m (data_m v1)) (int (size_m v1)))
                  (n - size_m v1) w1 of
             (Inl e, w2) \<Rightarrow> (Inl e, v1, w2)
           | (Inr u, w2) \<Rightarrow> (Inr (), v1\<lparr>size_m := n\<rparr>, w2))) = (Inr u, v', w')"
        using r by (simp only: Resize_grow_eq [OF 3])
      obtain v1 w1 where rs: "Reserve T n v w = (Inr (), v1, w1)"
        and c: "uninitialized_value_construct_n T
                  (ptr_add (buffer_m (data_m v1)) (int (size_m v1)))
                  (n - size_m v1) w1 = (Inr (), w')"
        and v': "v' = v1\<lparr>size_m := n\<rparr>"
      proof (cases "Reserve T n v w")
        case (fields rr v1 w1)
        show ?thesis
        proof (cases rr)
          case (Inl e)
          with fields r' show ?thesis by simp
        next
          case (Inr u1)
          show ?thesis
          proof (cases "uninitialized_value_construct_n T
                  (ptr_add (buffer_m (data_m v1)) (int (size_m v1)))
                  (n - size_m v1) w1")
            case (Pair rc w2)
            show ?thesis
            proof (cases rc)
              case (Inl e)
              with fields Inr Pair r' show ?thesis by simp
            next
              case Inr2: (Inr u2)
              with fields Inr Pair r' that show ?thesis by simp
            qed
          qed
        qed
      qed
      note s1 = Reserve_ok [OF ok T nw rs]
      have cap1: "n \<le> capacity_m (data_m v1)"
        using s1(4) by (simp add: Capacity_def RawMemory_Capacity_def split: if_splits)
      with 3 wf_Null(1) [OF s1(1)] obtain a j where p: "buffer_m (data_m v1) = Ptr a j"
        by (cases "buffer_m (data_m v1)") auto
      note p1 = wf_Ptr [OF s1(1) p]
      from c have c': "uninitialized_value_construct_n T (Ptr a (size_m v))
          (n - size_m v) w1 = (Inr (), w')"
        by (simp add: p p1(1) s1(2))
      have rg: "size_m v + (n - size_m v) \<le> capacity_m (data_m v1)"
        using 3 cap1 by simp
      note c0 = uninitialized_value_construct_n_Inr [OF c' p1(3) rg]
      note c1 = c0 [THEN conjunct2, rule_format]
      have sh: "same_shape w1 w'" using c0 by simp
      have ld: "load w' (Ptr a k)
          = (if k < size_m v then elems v w ! k
             else if k < n then Some (value_init T) else load w1 (Ptr a k))" for k
      proof -
        have "load w1 (Ptr a k) = elems v w ! k" if "k < size_m v"
          using that s1(2,3) nth_elems [of k v1 w1] by (simp add: p p1(1))
        then show ?thesis using 3 by (auto simp: c1)
      qed
      have ok': "vector_ok T v' w'"
      proof (rule wf_Ptr_I [where a = a])
        show "buffer_m (data_m v') = Ptr a 0" using p p1(1) by (simp add: v')
        show "0 < capacity_m (data_m v')" using p1(2) by (simp add: v')
        show "block_len w' a = Some (capacity_m (data_m v'))"
          using p1(3) same_shape_block_len [OF sh] by (simp add: v')
        show "size_m v' \<le> capacity_m (data_m v')" using cap1 by (simp add: v')
        show "capacity_m (data_m v') * sizeof_T T < 2 ^ 64"
          using wf_size(2) [OF s1(1)] by (simp add: v')
        show "load w' (Ptr a k) \<noteq> None" if "k < size_m v'" for k
          using that wf_live [OF ok, of k] by (simp add: ld v')
      qed
      have "elems v' w' = elems v w @ replicate (n - size_m v) (Some (value_init T))"
        using 3 by (intro nth_equalityI) (auto simp: v' nth_elems p p1(1) ld nth_append)
      with 3 ok' s1(4) show ?thesis
        by (simp add: v' Capacity_def RawMemory_Capacity_def)
    qed
  qed
  then show "size_m v' = n"
    and "Capacity v' = (if n \<le> Capacity v then Capacity v else n)"
    and "vector_ok T v' w'"
    and "n \<le> size_m v \<Longrightarrow> elems v' w' = take n (elems v w)"
    and "n \<le> size_m v \<Longrightarrow> n \<le> k \<Longrightarrow> k < size_m v \<Longrightarrow> load w' (iter v k) = None"
    and "size_m v < n \<Longrightarrow>
           elems v' w' = elems v w @ replicate (n - size_m v) (Some (value_init T))"
    by simp_all
qed

lemma Resize_quiet:
  assumes "faults w = []"
  shows "\<exists>v' w'. Resize T n v w = (Inr (), v', w')"
proof -
  consider "n = size_m v" | "n < size_m v" | "size_m v < n" by arith
  then show ?thesis
  proof cases
    case 1
    then show ?thesis by (simp add: Resize_def)
  next
    case 2
    then show ?thesis by (simp add: Resize_def)
  next
    case 3
    from Reserve_quiet [OF assms, of T n v] obtain v1 w1 where
      rs: "Reserve T n v w = (Inr (), v1, w1)" and q1: "faults w1 = []" by blast
    from uninitialized_value_construct_n_quiet [OF q1, of T
        "ptr_add (buffer_m (data_m v1)) (int (size_m v1))" "n - size_m v1"]
    obtain w2 where "uninitialized_value_construct_n T
        (ptr_add (buffer_m (data_m v1)) (int (size_m v1))) (n - size_m v1) w1 = (Inr (), w2)"
      by blast
    with rs show ?thesis by (simp add: Resize_grow_eq [OF 3])
  qed
qed

text \<open>
  Constructing into slots past the end of a block: in the code those writes are outside
  the storage acquired; in the model they are dropped.
\<close>

lemma store_outside:
  assumes "block_len w a = Some m" and "m \<le> i"
  shows "store (Ptr a i) s w = w"
proof -
  from assms(1) obtain blk where a: "a < length (heap w)" and b: "heap w ! a = Some blk"
    and l: "length blk = m"
    by (auto simp: block_len_def split: if_splits)
  have "length blk \<le> i" using l assms(2) by simp
  then have "blk[i := s] = blk" by (rule list_update_beyond)
  then have "(heap w)[a := Some (blk[i := s])] = heap w"
    using b by (simp add: list_update_same_conv a)
  then show ?thesis using a b by (simp add: store.simps)
qed

lemma uninitialized_value_construct_n_outside:
  assumes "faults w = []" and "block_len w a = Some m" and "m \<le> i"
  shows "uninitialized_value_construct_n T (Ptr a i) n w = (Inr (), w)"
  using assms(3)
proof (induction n arbitrary: i)
  case 0
  then show ?case by simp
next
  case (Suc n)
  have c: "value_construct_at T (Ptr a i) w = (Inr (), w)"
    using assms(1) store_outside [OF assms(2) Suc.prems]
    by (simp add: value_construct_at_def may_throw_def)
  from Suc.prems have "m \<le> Suc i" by simp
  from Suc.IH [OF this] c show ?case by simp
qed

text \<open>
  C8 (as stated). The claim is that for every vector \<^verbatim>\<open>Resize(n)\<close> with \<open>n\<close> above the size
  leaves the old elements unchanged, followed by default values. On the vector 1, 2, 3 of
  32-byte elements \<^verbatim>\<open>Resize(2 ^ 59 + 1)\<close> returns with size \<open>2 ^ 59 + 1\<close> over a block of one
  slot: the element at index 1, which was 2, is not there any more, and no default value
  is at index 3.
\<close>

theorem Resize_counterexample:
  "vector_ok T_copyable v123 (w123 [])
    \<and> elems v123 (w123 []) = [Some 1, Some 2, Some 3]
    \<and> value_init T_copyable = 0
    \<and> Resize T_copyable (2 ^ 59 + 1) v123 (w123 []) =
        (Inr (), \<lparr>data_m = \<lparr>buffer_m = Ptr 1 0, capacity_m = 2 ^ 59 + 1\<rparr>,
                   size_m = 2 ^ 59 + 1\<rparr>,
         \<lparr>heap = [None, Some [Some 1]], faults = []\<rparr>)
    \<and> elems \<lparr>data_m = \<lparr>buffer_m = Ptr 1 0, capacity_m = 2 ^ 59 + 1\<rparr>, size_m = 2 ^ 59 + 1\<rparr>
         \<lparr>heap = [None, Some [Some (1 :: int)]], faults = []\<rparr> ! 1 = None
    \<and> elems \<lparr>data_m = \<lparr>buffer_m = Ptr 1 0, capacity_m = 2 ^ 59 + 1\<rparr>, size_m = 2 ^ 59 + 1\<rparr>
         \<lparr>heap = [None, Some [Some (1 :: int)]], faults = []\<rparr> ! 3 = None"
proof -
  let ?v1 = "\<lparr>data_m = \<lparr>buffer_m = Ptr 1 0, capacity_m = 2 ^ 59 + 1\<rparr>, size_m = 3\<rparr>"
  let ?v' = "\<lparr>data_m = \<lparr>buffer_m = Ptr 1 0, capacity_m = 2 ^ 59 + 1\<rparr>, size_m = 2 ^ 59 + 1\<rparr>"
  let ?w' = "\<lparr>heap = [None, Some [Some 1]], faults = []\<rparr> :: int world"
  have a: "vector_ok T_copyable v123 (w123 [])"
    "elems v123 (w123 []) = [Some 1, Some 2, Some 3]" "value_init T_copyable = 0"
    by (simp_all add: run_defs T_copyable_def v123_def w123_def)
  have s: "size_m v123 < 2 ^ 59 + 1" by (simp add: v123_def)
  have bl: "block_len ?w' 1 = Some 1" by (simp add: block_len_def)
  have f: "faults ?w' = []" by simp
  have p: "ptr_add (buffer_m (data_m ?v1)) (int (size_m ?v1)) = Ptr 1 3"
    by (simp add: ptr_add.simps)
  have c: "uninitialized_value_construct_n T_copyable
      (ptr_add (buffer_m (data_m ?v1)) (int (size_m ?v1))) (2 ^ 59 + 1 - size_m ?v1) ?w'
      = (Inr (), ?w')"
    unfolding p by (rule uninitialized_value_construct_n_outside [OF f bl]) simp
  have v: "?v1\<lparr>size_m := 2 ^ 59 + 1\<rparr> = ?v'" by simp
  have r: "Resize T_copyable (2 ^ 59 + 1) v123 (w123 []) = (Inr (), ?v', ?w')"
    unfolding Resize_grow_eq [OF s] Reserve_overflow_example prod.case sum.case c v ..
  have e1: "elems ?v' ?w' ! 1 = None"
    by (subst nth_elems) (simp_all add: load.simps ptr_add.simps)
  have e3: "elems ?v' ?w' ! 3 = None"
    by (subst nth_elems) (simp_all add: load.simps ptr_add.simps)
  from a r e1 e3 show ?thesis by blast
qed

text \<open>
  C8 (amended). For a well-formed vector of size \<open>s\<close> and a request \<open>n\<close> that is at most
  the capacity or whose byte size \<^verbatim>\<open>n * sizeof(T)\<close> fits \<^verbatim>\<open>size_t\<close>: a call \<^verbatim>\<open>Resize(n)\<close>
  that returns leaves the size \<open>n\<close>; the capacity is unchanged when \<open>n\<close> is at most the
  capacity and is exactly \<open>n\<close> otherwise, so it never decreases. With \<open>n \<le> s\<close> the
  elements are the first \<open>n\<close> old ones and the slots from \<open>n\<close> to \<open>s - 1\<close> hold no
  object any more. With \<open>n > s\<close> the elements are the old ones followed by \<open>n - s\<close>
  value-initialised ones. When nothing throws the call returns.
\<close>

theorem Resize_spec:
  assumes "vector_ok T v w" and "0 < sizeof_T T"
    and "Capacity v < n \<longrightarrow> n * sizeof_T T < 2 ^ 64"
  shows "(\<forall>u v' w'. Resize T n v w = (Inr u, v', w') \<longrightarrow>
            size_m v' = n \<and> Capacity v \<le> Capacity v' \<and> vector_ok T v' w'
            \<and> (n \<le> Capacity v \<longrightarrow> Capacity v' = Capacity v)
            \<and> (Capacity v < n \<longrightarrow> Capacity v' = n)
            \<and> (n \<le> size_m v \<longrightarrow>
                  elems v' w' = take n (elems v w)
                  \<and> (\<forall>k. n \<le> k \<and> k < size_m v \<longrightarrow> load w' (iter v k) = None))
            \<and> (size_m v < n \<longrightarrow>
                  elems v' w' = elems v w @ replicate (n - size_m v) (Some (value_init T))))
    \<and> (faults w = [] \<longrightarrow> (\<exists>v' w'. Resize T n v w = (Inr (), v', w')))"
proof (intro conjI allI impI)
  fix u v' w'
  assume r: "Resize T n v w = (Inr u, v', w')"
  note r1 = Resize_Inr [OF assms r]
  show "size_m v' = n" by (rule r1(1))
  show "Capacity v \<le> Capacity v'" using r1(2) by simp
  show "vector_ok T v' w'" by (rule r1(3))
  show "Capacity v' = Capacity v" if "n \<le> Capacity v" using that r1(2) by simp
  show "Capacity v' = n" if "Capacity v < n" using that r1(2) by simp
  show "elems v' w' = take n (elems v w)" if "n \<le> size_m v" using that by (rule r1(4))
  show "load w' (iter v k) = None" if "n \<le> size_m v" and "n \<le> k \<and> k < size_m v" for k
    using that r1(5) [of k] by simp
  show "elems v' w' = elems v w @ replicate (n - size_m v) (Some (value_init T))"
    if "size_m v < n" using that by (rule r1(6))
next
  assume "faults w = []"
  then show "\<exists>v' w'. Resize T n v w = (Inr (), v', w')" by (rule Resize_quiet)
qed

lemma Resize_example:
  "Resize T_copyable 5
     \<lparr>data_m = \<lparr>buffer_m = Ptr 0 0, capacity_m = 4\<rparr>, size_m = 3\<rparr>
     \<lparr>heap = [Some [Some 10, Some 2, Some 3, None]], faults = []\<rparr> =
     (Inr (), \<lparr>data_m = \<lparr>buffer_m = Ptr 1 0, capacity_m = 5\<rparr>, size_m = 5\<rparr>,
      \<lparr>heap = [None, Some [Some 10, Some 2, Some 3, Some 0, Some 0]], faults = []\<rparr>)"
  "Resize T_copyable 2
     \<lparr>data_m = \<lparr>buffer_m = Ptr 1 0, capacity_m = 5\<rparr>, size_m = 5\<rparr>
     \<lparr>heap = [None, Some [Some 10, Some 2, Some 3, Some 0, Some 0]], faults = []\<rparr> =
     (Inr (), \<lparr>data_m = \<lparr>buffer_m = Ptr 1 0, capacity_m = 5\<rparr>, size_m = 2\<rparr>,
      \<lparr>heap = [None, Some [Some 10, Some 2, None, None, None]], faults = []\<rparr>)"
  by (simp_all add: run_defs T_copyable_def)

theorem Resize_spec_witness:
  "vector_ok T_copyable \<lparr>data_m = \<lparr>buffer_m = Ptr 0 0, capacity_m = 4\<rparr>, size_m = 3\<rparr>
      \<lparr>heap = [Some [Some 10, Some 2, Some 3, None]], faults = []\<rparr>
    \<and> 0 < sizeof_T T_copyable \<and> 5 * sizeof_T T_copyable < 2 ^ 64
    \<and> elems \<lparr>data_m = \<lparr>buffer_m = Ptr 0 0, capacity_m = 4\<rparr>, size_m = 3\<rparr>
         \<lparr>heap = [Some [Some 10, Some 2, Some 3, None]], faults = []\<rparr>
       = [Some (10 :: int), Some 2, Some 3]
    \<and> (\<exists>v' w'. Resize T_copyable 5
           \<lparr>data_m = \<lparr>buffer_m = Ptr 0 0, capacity_m = 4\<rparr>, size_m = 3\<rparr>
           \<lparr>heap = [Some [Some 10, Some 2, Some 3, None]], faults = []\<rparr> = (Inr (), v', w')
         \<and> size_m v' = 5 \<and> Capacity v' = 5
         \<and> elems v' w' = [Some 10, Some 2, Some 3, Some 0, Some 0]
         \<and> (\<exists>v'' w''. Resize T_copyable 2 v' w' = (Inr (), v'', w'')
              \<and> size_m v'' = 2 \<and> Capacity v'' = 5 \<and> elems v'' w'' = [Some 10, Some 2]))"
proof -
  let ?v = "\<lparr>data_m = \<lparr>buffer_m = Ptr 0 0, capacity_m = 4\<rparr>, size_m = 3\<rparr>"
  let ?w = "\<lparr>heap = [Some [Some 10, Some 2, Some 3, None]], faults = []\<rparr> :: int world"
  let ?v1 = "\<lparr>data_m = \<lparr>buffer_m = Ptr 1 0, capacity_m = 5\<rparr>, size_m = 5\<rparr>"
  let ?w1 = "\<lparr>heap = [None, Some [Some 10, Some 2, Some 3, Some 0, Some 0]], faults = []\<rparr>
             :: int world"
  let ?v2 = "\<lparr>data_m = \<lparr>buffer_m = Ptr 1 0, capacity_m = 5\<rparr>, size_m = 2\<rparr>"
  let ?w2 = "\<lparr>heap = [None, Some [Some 10, Some 2, None, None, None]], faults = []\<rparr>
             :: int world"
  have h: "vector_ok T_copyable ?v ?w" "0 < sizeof_T T_copyable"
    by (simp_all add: run_defs T_copyable_def)
  have n: "5 * sizeof_T T_copyable < 2 ^ 64" by (simp add: T_copyable_def)
  then have n': "Capacity ?v < 5 \<longrightarrow> 5 * sizeof_T T_copyable < 2 ^ 64" by simp
  have e: "elems ?v ?w = [Some 10, Some 2, Some 3]" "size_m ?v = 3" "value_init T_copyable = 0"
    by (simp_all add: run_defs T_copyable_def)
  from Resize_spec [OF h n'] Resize_example(1)
  have a: "size_m ?v1 = 5 \<and> vector_ok T_copyable ?v1 ?w1
      \<and> (Capacity ?v < 5 \<longrightarrow> Capacity ?v1 = 5)
      \<and> (size_m ?v < 5 \<longrightarrow> elems ?v1 ?w1
            = elems ?v ?w @ replicate (5 - size_m ?v) (Some (value_init T_copyable)))"
    by blast
  then have a0: "elems ?v1 ?w1
      = elems ?v ?w @ replicate (5 - size_m ?v) (Some (value_init T_copyable))"
    by simp
  have a1: "elems ?v1 ?w1 = [Some 10, Some 2, Some 3, Some 0, Some 0]"
    unfolding a0 e by (simp add: eval_nat_numeral)
  from a have ok1: "vector_ok T_copyable ?v1 ?w1" by blast
  have n2: "Capacity ?v1 < 2 \<longrightarrow> 2 * sizeof_T T_copyable < 2 ^ 64"
    by (simp add: T_copyable_def)
  from Resize_spec [OF ok1 h(2) n2] Resize_example(2)
  have b: "size_m ?v2 = 2
      \<and> (2 \<le> Capacity ?v1 \<longrightarrow> Capacity ?v2 = Capacity ?v1)
      \<and> (2 \<le> size_m ?v1 \<longrightarrow> elems ?v2 ?w2 = take 2 (elems ?v1 ?w1))"
    by blast
  then have b0: "elems ?v2 ?w2 = take 2 (elems ?v1 ?w1)"
    by simp
  have b1: "elems ?v2 ?w2 = [Some 10, Some 2]"
    unfolding b0 a1 by (simp add: eval_nat_numeral)
  have b2: "Capacity ?v2 = 5" "Capacity ?v1 = 5"
    by (simp_all add: Capacity_def RawMemory_Capacity_def)
  from h n e(1) Resize_example a1 b1 b2 show ?thesis by simp
qed

section \<open>Erase\<close>

lemma wrap_pred:
  assumes "0 < n" and "n < 2 ^ 64"
  shows "wrap (n + 2 ^ 64 - 1) = n - 1"
proof -
  have "n + 2 ^ 64 - 1 = (n - 1) + 1 * 2 ^ 64" using assms by simp
  then have "wrap (n + 2 ^ 64 - 1) = (n - 1) mod 2 ^ 64"
    unfolding wrap_def by (simp only: mod_mult_self1)
  with assms show ?thesis by simp
qed

lemma Erase_eq:
  assumes ok: "vector_ok T v w" and T: "0 < sizeof_T T" and i: "i < size_m v"
    and p: "buffer_m (data_m v) = Ptr a j"
  shows "Erase T (Ptr a i) v w =
     (case move_n T (Ptr a (Suc i)) (size_m v - Suc i) (Ptr a i) (destroy_at (Ptr a i) w) of
        (Inl e, w2) \<Rightarrow> (Inl Terminate, v, w2)
      | (Inr u, w2) \<Rightarrow> (Inr (Ptr a i), v\<lparr>size_m := size_m v - 1\<rparr>, w2))"
proof -
  note p1 = wf_Ptr [OF ok p]
  have s: "size_m v \<le> capacity_m (data_m v)" by (rule wf_size(1) [OF ok])
  have "size_m v < 2 ^ 64" using wf_capacity_bound [OF ok T] s by simp
  with i have wr: "wrap (size_m v + 2 ^ 64 - 1) = size_m v - 1"
    by (intro wrap_pred) simp_all
  have d: "nat (int (size_m v) - int (Suc i)) = size_m v - Suc i" by simp
  have en: "end_it v = Inr (Ptr a (size_m v))"
    using end_it_ok(1) [OF ok] by (simp add: iter_Ptr [OF ok p])
  have sm: "std_move T (ptr_add (Ptr a i) 1) (Ptr a (size_m v)) (Ptr a i) w0
      = move_n T (Ptr a (Suc i)) (size_m v - Suc i) (Ptr a i) w0" for w0
  proof -
    have "nat (distance (ptr_add (Ptr a i) 1) (Ptr a (size_m v))) = size_m v - Suc i"
      by (simp; arith)
    then show ?thesis by (simp only: std_move_def ptr_add_one)
  qed
  have bg: "begin_it (v\<lparr>size_m := size_m v - 1\<rparr>) = Inr (Ptr a 0)"
    "cbegin (v\<lparr>size_m := size_m v - 1\<rparr>) = Inr (Ptr a 0)"
    using p1(2)
    by (simp_all add: cbegin_def begin_it_def RawMemory_index_def Capacity_def
        RawMemory_Capacity_def p p1(1))
  show ?thesis
    unfolding Erase_def Let_def wr en sum.case sm bg
    by (simp cong: sum.case_cong prod.case_cong)
qed

text \<open>
  What a call that returns leaves behind. The first move assignment of the shift has the
  slot at \<open>pos\<close> as its destination, which \<^verbatim>\<open>pos->~T()\<close> has just emptied; no constructor
  runs, so that slot holds no object afterwards and the value that was to move into it is
  gone. The later assignments have live destinations and move the rest of the tail down
  by one. The last object of the tail is left moved-from in its slot, past the new end.
\<close>

lemma Erase_Inr:
  assumes ok: "vector_ok T v w" and T: "0 < sizeof_T T" and i: "i < size_m v"
    and r: "Erase T (iter v i) v w = (Inr q, v', w')"
  shows "size_m v' = size_m v - 1" and "data_m v' = data_m v"
    and "elems v' w' = (take i (elems v w) @ drop (Suc i) (elems v w))[i := None]"
    and "q = iter v' i" and "same_shape w w'"
    and "Suc i < size_m v \<Longrightarrow>
           load w' (iter v (size_m v - 1))
             = map_option (moved_from T) (elems v w ! (size_m v - 1))"
proof -
  from i wf_size(1) [OF ok] wf_Null(2) [OF ok] obtain a j where
    p: "buffer_m (data_m v) = Ptr a j"
    by (cases "buffer_m (data_m v)") auto
  note p1 = wf_Ptr [OF ok p]
  have s: "size_m v \<le> capacity_m (data_m v)" by (rule wf_size(1) [OF ok])
  have it: "iter v k = Ptr a k" for k by (rule iter_Ptr [OF ok p])
  let ?w1 = "destroy_at (Ptr a i) w"
  define v1 where "v1 = v\<lparr>size_m := size_m v - 1\<rparr>"
  define n where "n = size_m v - Suc i"
  from r have r': "(case move_n T (Ptr a (Suc i)) n (Ptr a i) ?w1 of
        (Inl e, w2) \<Rightarrow> (Inl Terminate, v, w2)
      | (Inr u, w2) \<Rightarrow> (Inr (Ptr a i), v1, w2)) = (Inr q, v', w')"
    unfolding v1_def n_def by (simp only: it Erase_eq [OF ok T i p])
  have ex: "move_n T (Ptr a (Suc i)) n (Ptr a i) ?w1 = (Inr (), w') \<and> q = Ptr a i \<and> v' = v1"
  proof (cases "move_n T (Ptr a (Suc i)) n (Ptr a i) ?w1")
    case (Pair rr w2)
    show ?thesis
    proof (cases rr)
      case (Inl e)
      with Pair r' show ?thesis by simp
    next
      case (Inr u)
      with Pair r' show ?thesis by simp
    qed
  qed
  then have mv0: "move_n T (Ptr a (Suc i)) n (Ptr a i) ?w1 = (Inr (), w')"
    and q: "q = Ptr a i" and v10: "v' = v1"
    by blast+
  have mv: "move_n T (Ptr a (Suc i)) (size_m v - Suc i) (Ptr a i) ?w1 = (Inr (), w')"
    using mv0 by (simp only: n_def)
  have v': "v' = v\<lparr>size_m := size_m v - 1\<rparr>"
    using v10 by (simp only: v1_def)
  note m0 = move_n_Inr [OF mv]
  note m1 = m0 [THEN conjunct2, rule_format]
  have sh: "same_shape w w'"
  proof -
    have "same_shape w ?w1" by simp
    moreover have "same_shape ?w1 w'" using m0 by blast
    ultimately show ?thesis by (rule same_shape_trans)
  qed
  have e1: "elems v w ! k = load w (Ptr a k)" if "k < size_m v" for k
    using that by (simp add: nth_elems p p1(1))
  have lv: "load w (Ptr a k) \<noteq> None" if "k < size_m v" for k
    using wf_live [OF ok that] by (simp add: e1 [OF that])
  have ld: "load w' (Ptr a k)
      = (if k < i then elems v w ! k else if k = i then None else elems v w ! Suc k)"
    if "k < size_m v - 1" for k
  proof -
    from that have "k < size_m v" by simp
    from lv [OF this] that i show ?thesis by (auto simp: m1 load_destroy_at e1)
  qed
  have el: "elems v' w' = (take i (elems v w) @ drop (Suc i) (elems v w))[i := None]"
  proof (rule nth_equalityI)
    show "length (elems v' w')
        = length ((take i (elems v w) @ drop (Suc i) (elems v w))[i := None])"
      using i by (simp add: v')
  next
    fix k assume "k < length (elems v' w')"
    then have k: "k < size_m v - 1" by (simp add: v')
    have "elems v' w' ! k = load w' (Ptr a k)"
      using k by (simp add: nth_elems v' p p1(1))
    also have "\<dots>
        = (if k < i then elems v w ! k else if k = i then None else elems v w ! Suc k)"
      by (rule ld [OF k])
    also have "\<dots> = (take i (elems v w) @ drop (Suc i) (elems v w))[i := None] ! k"
      using k i by (simp add: nth_append nth_list_update)
    finally show "elems v' w' ! k
        = (take i (elems v w) @ drop (Suc i) (elems v w))[i := None] ! k" .
  qed
  have qi: "q = iter v' i"
    using p1(2) by (simp add: q v' iter_def Capacity_def RawMemory_Capacity_def p p1(1))
  have lst: "load w' (iter v (size_m v - 1))
             = map_option (moved_from T) (elems v w ! (size_m v - 1))"
    if "Suc i < size_m v"
    using that by (auto simp: it m1 load_destroy_at e1)
  show "size_m v' = size_m v - 1" by (simp add: v')
  show "data_m v' = data_m v" by (simp add: v')
  show "elems v' w' = (take i (elems v w) @ drop (Suc i) (elems v w))[i := None]" by (rule el)
  show "q = iter v' i" by (rule qi)
  show "same_shape w w'" by (rule sh)
  show "Suc i < size_m v \<Longrightarrow>
           load w' (iter v (size_m v - 1))
             = map_option (moved_from T) (elems v w ! (size_m v - 1))"
    by (rule lst)
qed

text \<open>
  So erasing at a position before the last leaves a vector that is not well-formed, and
  whose elements are not the old ones without the erased one.
\<close>

lemma Erase_not_last:
  assumes ok: "vector_ok T v w" and T: "0 < sizeof_T T" and i: "Suc i < size_m v"
    and r: "Erase T (iter v i) v w = (Inr q, v', w')"
  shows "elems v' w' ! i = None" and "\<not> vector_ok T v' w'"
    and "elems v' w' \<noteq> take i (elems v w) @ drop (Suc i) (elems v w)"
proof -
  from i have i': "i < size_m v" by simp
  note e = Erase_Inr [OF ok T i' r]
  have l: "i < length (take i (elems v w) @ drop (Suc i) (elems v w))" using i by simp
  show n: "elems v' w' ! i = None" unfolding e(3) using l by (simp only: nth_list_update_eq)
  have s: "i < size_m v'" using e(1) i by simp
  show "\<not> vector_ok T v' w'"
  proof
    assume "vector_ok T v' w'"
    from wf_live [OF this s] n show False by simp
  qed
  have "(take i (elems v w) @ drop (Suc i) (elems v w)) ! i = elems v w ! Suc i"
    using i by (simp add: nth_append)
  with wf_live [OF ok i] n
  show "elems v' w' \<noteq> take i (elems v w) @ drop (Suc i) (elems v w)" by auto
qed

text \<open>Erasing the last element is the one case without an assignment.\<close>

lemma Erase_last:
  assumes ok: "vector_ok T v w" and T: "0 < sizeof_T T" and i: "Suc i = size_m v"
    and r: "Erase T (iter v i) v w = (Inr q, v', w')"
  shows "elems v' w' = take i (elems v w)"
proof -
  from i have i': "i < size_m v" by simp
  note e = Erase_Inr [OF ok T i' r]
  have "length (take i (elems v w) @ drop (Suc i) (elems v w)) \<le> i" using i by simp
  then have "(take i (elems v w) @ drop (Suc i) (elems v w))[i := None]
      = take i (elems v w) @ drop (Suc i) (elems v w)"
    by (rule list_update_beyond)
  with e(3) i show ?thesis by simp
qed

lemma Erase_Inl:
  assumes ok: "vector_ok T v w" and T: "0 < sizeof_T T" and i: "i < size_m v"
    and r: "Erase T (iter v i) v w = (Inl e, v', w')"
  shows "e = Terminate"
proof -
  from i wf_size(1) [OF ok] wf_Null(2) [OF ok] obtain a j where
    p: "buffer_m (data_m v) = Ptr a j"
    by (cases "buffer_m (data_m v)") auto
  have it: "iter v k = Ptr a k" for k by (rule iter_Ptr [OF ok p])
  let ?w1 = "destroy_at (Ptr a i) w"
  define v1 where "v1 = v\<lparr>size_m := size_m v - 1\<rparr>"
  define n where "n = size_m v - Suc i"
  from r have r': "(case move_n T (Ptr a (Suc i)) n (Ptr a i) ?w1 of
        (Inl e, w2) \<Rightarrow> (Inl Terminate, v, w2)
      | (Inr u, w2) \<Rightarrow> (Inr (Ptr a i), v1, w2)) = (Inl e, v', w')"
    unfolding v1_def n_def by (simp only: it Erase_eq [OF ok T i p])
  show ?thesis
  proof (cases "move_n T (Ptr a (Suc i)) n (Ptr a i) ?w1")
    case (Pair rr w2)
    show ?thesis
    proof (cases rr)
      case (Inl e')
      with Pair r' show ?thesis by simp
    next
      case (Inr u)
      with Pair r' show ?thesis by simp
    qed
  qed
qed

lemma Erase_quiet:
  assumes ok: "vector_ok T v w" and T: "0 < sizeof_T T" and i: "i < size_m v"
    and f: "faults w = []"
  shows "\<exists>q v' w'. Erase T (iter v i) v w = (Inr q, v', w')"
proof -
  from i wf_size(1) [OF ok] wf_Null(2) [OF ok] obtain a j where
    p: "buffer_m (data_m v) = Ptr a j"
    by (cases "buffer_m (data_m v)") auto
  have it: "iter v k = Ptr a k" for k by (rule iter_Ptr [OF ok p])
  have "faults (destroy_at (Ptr a i) w) = []" using f by simp
  from move_n_quiet [OF this, of T "Ptr a (Suc i)" "size_m v - Suc i" "Ptr a i"]
  obtain w2 where
    "move_n T (Ptr a (Suc i)) (size_m v - Suc i) (Ptr a i) (destroy_at (Ptr a i) w)
      = (Inr (), w2)" by blast
  then show ?thesis by (simp add: it Erase_eq [OF ok T i p])
qed

text \<open>
  C5. The vector 1, 10, 2, 3 and \<^verbatim>\<open>Erase(begin())\<close>. The claim is that the size becomes 3
  and the elements are 10, 2, 3. The size becomes 3, but \<^verbatim>\<open>Erase\<close> destroys the object at
  \<open>pos\<close> before it shifts the tail, and the shift begins with a move assignment into that
  destroyed object: the first slot holds no object after the call, the value 10 that
  was to move there is lost, the elements after it are 2 and 3, and the last object of the
  old vector is still alive, moved-from, in the slot past the new end. The vector is not
  well-formed any more.
\<close>

theorem Erase_assigns_to_destroyed:
  "vector_ok T_copyable \<lparr>data_m = \<lparr>buffer_m = Ptr 0 0, capacity_m = 4\<rparr>, size_m = 4\<rparr>
      \<lparr>heap = [Some [Some 1, Some 10, Some 2, Some 3]], faults = []\<rparr>
    \<and> elems \<lparr>data_m = \<lparr>buffer_m = Ptr 0 0, capacity_m = 4\<rparr>, size_m = 4\<rparr>
         \<lparr>heap = [Some [Some 1, Some 10, Some 2, Some 3]], faults = []\<rparr>
       = [Some (1 :: int), Some 10, Some 2, Some 3]
    \<and> iter \<lparr>data_m = \<lparr>buffer_m = Ptr 0 0, capacity_m = 4\<rparr>, size_m = 4\<rparr> 0 = Ptr 0 0
    \<and> Erase T_copyable (Ptr 0 0)
         \<lparr>data_m = \<lparr>buffer_m = Ptr 0 0, capacity_m = 4\<rparr>, size_m = 4\<rparr>
         \<lparr>heap = [Some [Some 1, Some 10, Some 2, Some 3]], faults = []\<rparr>
       = (Inr (Ptr 0 0), \<lparr>data_m = \<lparr>buffer_m = Ptr 0 0, capacity_m = 4\<rparr>, size_m = 3\<rparr>,
          \<lparr>heap = [Some [None, Some 2, Some 3, Some (- 1)]], faults = []\<rparr>)
    \<and> elems \<lparr>data_m = \<lparr>buffer_m = Ptr 0 0, capacity_m = 4\<rparr>, size_m = 3\<rparr>
         \<lparr>heap = [Some [None, Some 2, Some 3, Some (- 1)]], faults = []\<rparr>
       = [None, Some (2 :: int), Some 3]
    \<and> \<not> vector_ok T_copyable \<lparr>data_m = \<lparr>buffer_m = Ptr 0 0, capacity_m = 4\<rparr>, size_m = 3\<rparr>
         \<lparr>heap = [Some [None, Some 2, Some 3, Some (- 1)]], faults = []\<rparr>"
  by (simp add: run_defs T_copyable_def)

section \<open>Copy assignment without reallocation\<close>

lemma separate_Ptr:
  assumes "separate v u" and "buffer_m (data_m v) = Ptr a i" and "buffer_m (data_m u) = Ptr b j"
  shows "a \<noteq> b"
  using assms by (simp add: separate_def)

lemma copy_assign_loop_Inr:
  assumes "copy_assign_loop v rhs i n w = (Inr u, w')"
    and "buffer_m (data_m v) = Ptr a 0" and "buffer_m (data_m rhs) = Ptr b 0"
    and "\<forall>k. i \<le> k \<and> k < i + n \<longrightarrow> load w (Ptr a k) \<noteq> None" and "a \<noteq> b"
  shows "same_shape w w' \<and>
    (\<forall>c k. load w' (Ptr c k)
       = (if c = a \<and> i \<le> k \<and> k < i + n then load w (Ptr b k) else load w (Ptr c k)))"
  using assms(1,4)
proof (induction n arbitrary: i w)
  case 0
  then show ?case by auto
next
  case (Suc n)
  from Suc.prems(1) obtain w1 where
    c: "copy_assign_elem (Ptr a i) (Ptr b i) w = (Inr (), w1)" and
    r: "copy_assign_loop v rhs (Suc i) n w1 = (Inr u, w')"
    by (auto simp: RawMemory_index_def Vector_index_def assms(2,3)
        split: prod.splits sum.splits if_splits)
  note c1 = copy_assign_elem_Inr [OF c]
  have lv: "load w (Ptr a i) \<noteq> None" using Suc.prems(2) by simp
  have lv1: "\<forall>k. Suc i \<le> k \<and> k < Suc i + n \<longrightarrow> load w1 (Ptr a k) \<noteq> None"
    using Suc.prems(2) by (auto simp: c1(2))
  from Suc.IH [OF r lv1]
  have ih: "same_shape w1 w'"
    "\<And>c k. load w' (Ptr c k)
       = (if c = a \<and> Suc i \<le> k \<and> k < Suc i + n then load w1 (Ptr b k)
          else load w1 (Ptr c k))"
    by simp_all
  have "same_shape w w'" using c1(1) ih(1) by (rule same_shape_trans)
  moreover have "load w' (Ptr c k)
       = (if c = a \<and> i \<le> k \<and> k < i + Suc n then load w (Ptr b k) else load w (Ptr c k))"
    for c k
    using lv assms(5) by (auto simp: ih(2) c1(2))
  ultimately show ?case by blast
qed

lemma copy_assign_loop_quiet:
  assumes "faults w = []" and "i + n \<le> size_m rhs"
    and "size_m rhs \<le> capacity_m (data_m rhs)" and "i + n \<le> capacity_m (data_m v)"
  shows "\<exists>w'. copy_assign_loop v rhs i n w = (Inr (), w') \<and> faults w' = []"
  using assms(1,2,4)
proof (induction n arbitrary: i w)
  case 0
  then show ?case by simp
next
  case (Suc n)
  have d: "RawMemory_index (data_m v) i = Inr (ptr_add (buffer_m (data_m v)) (int i))"
    using Suc.prems(3) by (simp add: RawMemory_index_def)
  have s: "Vector_index rhs i = Inr (ptr_add (buffer_m (data_m rhs)) (int i))"
    using Suc.prems(2) assms(3) by (simp add: Vector_index_def RawMemory_index_def)
  from copy_assign_elem_quiet [OF Suc.prems(1),
      of "ptr_add (buffer_m (data_m v)) (int i)" "ptr_add (buffer_m (data_m rhs)) (int i)"]
  obtain w1 where
    c: "copy_assign_elem (ptr_add (buffer_m (data_m v)) (int i))
          (ptr_add (buffer_m (data_m rhs)) (int i)) w = (Inr (), w1)"
    and f: "faults w1 = []" by blast
  from Suc.prems(2,3) have "Suc i + n \<le> size_m rhs" "Suc i + n \<le> capacity_m (data_m v)"
    by simp_all
  from Suc.IH [OF f this] obtain w' where
    "copy_assign_loop v rhs (Suc i) n w1 = (Inr (), w')" and "faults w' = []" by blast
  then show ?case by (simp add: d s c)
qed

lemma copy_assign_inplace_shrink:
  assumes "size_m rhs < size_m v"
  shows "copy_assign_inplace v rhs w =
     (case copy_assign_loop v rhs 0 (size_m rhs) w of
        (Inl e, w1) \<Rightarrow> (Inl e, w1)
      | (Inr u, w1) \<Rightarrow>
          (Inr (), destroy_n (ptr_add (buffer_m (data_m v)) (int (size_m rhs)))
                     (size_m v - size_m rhs) w1))"
  using assms
  by (simp add: copy_assign_inplace_def Size_def GetAddress_def
      cong: sum.case_cong prod.case_cong)

lemma copy_assign_inplace_grow:
  assumes "size_m v \<le> size_m rhs"
  shows "copy_assign_inplace v rhs w =
     (case copy_assign_loop v rhs 0 (size_m v) w of
        (Inl e, w1) \<Rightarrow> (Inl e, w1)
      | (Inr u, w1) \<Rightarrow>
          uninitialized_copy_n (ptr_add (buffer_m (data_m rhs)) (int (size_m v)))
            (size_m rhs - size_m v) (ptr_add (buffer_m (data_m v)) (int (size_m v))) w1)"
  using assms
  by (simp add: copy_assign_inplace_def Size_def GetAddress_def
      cong: sum.case_cong prod.case_cong)

lemma copy_assign_inplace_Null:
  assumes "vector_ok T v w" and "buffer_m (data_m v) = Null"
    and "size_m rhs \<le> capacity_m (data_m v)"
  shows "copy_assign_inplace v rhs w = (Inr (), w)"
  using wf_Null [OF assms(1,2)] assms(3)
  by (simp add: copy_assign_inplace_grow)

lemma copy_assign_inplace_load:
  assumes okv: "vector_ok T v w" and okr: "vector_ok T rhs w" and sep: "separate v rhs"
    and fit: "size_m rhs \<le> capacity_m (data_m v)"
    and r: "copy_assign_inplace v rhs w = (Inr u, w')"
    and p: "buffer_m (data_m v) = Ptr a j"
  shows "same_shape w w' \<and>
    (\<forall>c k. load w' (Ptr c k)
       = (if c = a \<and> k < size_m rhs then elems rhs w ! k
          else if c = a \<and> k < size_m v then None
          else load w (Ptr c k)))"
proof -
  note p1 = wf_Ptr [OF okv p]
  have sv: "size_m v \<le> capacity_m (data_m v)" by (rule wf_size(1) [OF okv])
  show ?thesis
  proof (cases "buffer_m (data_m rhs)")
    case Null
    note z = wf_Null [OF okr Null]
    have "w' = destroy_n (Ptr a 0) (size_m v) w"
    proof (cases "0 < size_m v")
      case True
      with r z show ?thesis
        by (simp add: copy_assign_inplace_shrink p p1(1))
    next
      case False
      with r z show ?thesis
        by (simp add: copy_assign_inplace_grow)
    qed
    then show ?thesis by (simp add: load_destroy_n z)
  next
    case (Ptr b j')
    note q1 = wf_Ptr [OF okr Ptr]
    have ab: "a \<noteq> b" by (rule separate_Ptr [OF sep p Ptr])
    have pb: "buffer_m (data_m rhs) = Ptr b 0" using Ptr q1(1) by simp
    have pa: "buffer_m (data_m v) = Ptr a 0" using p p1(1) by simp
    have er: "elems rhs w ! k = load w (Ptr b k)" if "k < size_m rhs" for k
      using that by (simp add: nth_elems pb)
    have lv: "load w (Ptr a k) \<noteq> None" if "k < size_m v" for k
      using wf_live [OF okv that] that by (simp add: nth_elems pa)
    show ?thesis
    proof (cases "size_m rhs < size_m v")
      case True
      from r have r': "(case copy_assign_loop v rhs 0 (size_m rhs) w of
          (Inl e, w1) \<Rightarrow> (Inl e, w1)
        | (Inr u, w1) \<Rightarrow>
            (Inr (), destroy_n (Ptr a (size_m rhs)) (size_m v - size_m rhs) w1))
          = (Inr u, w')"
        by (simp add: copy_assign_inplace_shrink [OF True] pa
            cong: sum.case_cong prod.case_cong)
      have ex: "\<exists>w1. copy_assign_loop v rhs 0 (size_m rhs) w = (Inr (), w1)
          \<and> w' = destroy_n (Ptr a (size_m rhs)) (size_m v - size_m rhs) w1"
      proof (cases "copy_assign_loop v rhs 0 (size_m rhs) w")
        case (Pair rr w1)
        show ?thesis
        proof (cases rr)
          case (Inl e)
          with Pair r' show ?thesis by simp
        next
          case (Inr u1)
          with Pair r' show ?thesis by simp
        qed
      qed
      then obtain w1 where
        l: "copy_assign_loop v rhs 0 (size_m rhs) w = (Inr (), w1)"
        and w': "w' = destroy_n (Ptr a (size_m rhs)) (size_m v - size_m rhs) w1"
        by blast
      have rg: "\<forall>k. 0 \<le> k \<and> k < 0 + size_m rhs \<longrightarrow> load w (Ptr a k) \<noteq> None"
        using True lv by simp
      note l0 = copy_assign_loop_Inr [OF l pa pb rg ab]
      note l1 = l0 [THEN conjunct2, rule_format]
      have "same_shape w w'" using l0 by (simp add: w')
      moreover have "load w' (Ptr c k)
         = (if c = a \<and> k < size_m rhs then elems rhs w ! k
            else if c = a \<and> k < size_m v then None
            else load w (Ptr c k))" for c k
        using True by (auto simp: w' load_destroy_n l1 er)
      ultimately show ?thesis by blast
    next
      case False
      then have le: "size_m v \<le> size_m rhs" by simp
      from r have r': "(case copy_assign_loop v rhs 0 (size_m v) w of
          (Inl e, w1) \<Rightarrow> (Inl e, w1)
        | (Inr u, w1) \<Rightarrow>
            uninitialized_copy_n (Ptr b (size_m v)) (size_m rhs - size_m v)
              (Ptr a (size_m v)) w1) = (Inr u, w')"
        by (simp add: copy_assign_inplace_grow [OF le] pa pb
            cong: sum.case_cong prod.case_cong)
      have ex: "\<exists>w1. copy_assign_loop v rhs 0 (size_m v) w = (Inr (), w1)
          \<and> uninitialized_copy_n (Ptr b (size_m v)) (size_m rhs - size_m v)
              (Ptr a (size_m v)) w1 = (Inr u, w')"
      proof (cases "copy_assign_loop v rhs 0 (size_m v) w")
        case (Pair rr w1)
        show ?thesis
        proof (cases rr)
          case (Inl e)
          with Pair r' show ?thesis by simp
        next
          case (Inr u1)
          with Pair r' show ?thesis by simp
        qed
      qed
      then obtain w1 where
        l: "copy_assign_loop v rhs 0 (size_m v) w = (Inr (), w1)"
        and c: "uninitialized_copy_n (Ptr b (size_m v)) (size_m rhs - size_m v)
              (Ptr a (size_m v)) w1 = (Inr u, w')"
        by blast
      have rg: "\<forall>k. 0 \<le> k \<and> k < 0 + size_m v \<longrightarrow> load w (Ptr a k) \<noteq> None"
        using lv by simp
      note l0 = copy_assign_loop_Inr [OF l pa pb rg ab]
      note l1 = l0 [THEN conjunct2, rule_format]
      have sh1: "same_shape w w1" using l0 by simp
      have bl1: "block_len w1 a = Some (capacity_m (data_m v))"
        using p1(3) same_shape_block_len [OF sh1] by simp
      have rg2: "size_m v + (size_m rhs - size_m v) \<le> capacity_m (data_m v)"
        using le fit by simp
      have ba: "b \<noteq> a" using ab by simp
      note c0 = uninitialized_copy_n_Inr [OF c ba bl1 rg2]
      note c1 = c0 [THEN conjunct2, rule_format]
      have "same_shape w1 w'" using c0 by simp
      with sh1 have "same_shape w w'" by (rule same_shape_trans)
      moreover have "load w' (Ptr c k)
         = (if c = a \<and> k < size_m rhs then elems rhs w ! k
            else if c = a \<and> k < size_m v then None
            else load w (Ptr c k))" for c k
        using le ab by (auto simp: c1 l1 er)
      ultimately show ?thesis by blast
    qed
  qed
qed

lemma copy_assign_inplace_Inr:
  assumes okv: "vector_ok T v w" and okr: "vector_ok T rhs w" and sep: "separate v rhs"
    and fit: "size_m rhs \<le> capacity_m (data_m v)"
    and r: "copy_assign_inplace v rhs w = (Inr u, w')"
  shows "same_shape w w'"
    and "elems (v\<lparr>size_m := size_m rhs\<rparr>) w' = elems rhs w"
    and "vector_ok T (v\<lparr>size_m := size_m rhs\<rparr>) w'"
    and "vector_ok T rhs w'" and "elems rhs w' = elems rhs w"
    and "size_m rhs \<le> k \<Longrightarrow> k < size_m v \<Longrightarrow> load w' (iter v k) = None"
proof -
  have "same_shape w w' \<and> elems (v\<lparr>size_m := size_m rhs\<rparr>) w' = elems rhs w
    \<and> vector_ok T (v\<lparr>size_m := size_m rhs\<rparr>) w'
    \<and> vector_ok T rhs w' \<and> elems rhs w' = elems rhs w
    \<and> (size_m rhs \<le> k \<longrightarrow> k < size_m v \<longrightarrow> load w' (iter v k) = None)"
  proof (cases "buffer_m (data_m v)")
    case Null
    note z = wf_Null [OF okv Null]
    from r copy_assign_inplace_Null [OF okv Null fit] have w': "w' = w" by simp
    from fit z have s0: "size_m rhs = 0" by simp
    then have veq: "v\<lparr>size_m := size_m rhs\<rparr> = v" using z by simp
    show ?thesis
      unfolding veq w' using okv okr z s0 by (simp add: elems_def)
  next
    case (Ptr a j)
    note p1 = wf_Ptr [OF okv Ptr]
    note l0 = copy_assign_inplace_load [OF okv okr sep fit r Ptr]
    note l1 = l0 [THEN conjunct2, rule_format]
    have sh: "same_shape w w'" using l0 by simp
    let ?v' = "v\<lparr>size_m := size_m rhs\<rparr>"
    have it: "iter v k = Ptr a k" for k by (rule iter_Ptr [OF okv Ptr])
    have ok': "vector_ok T ?v' w'"
    proof (rule wf_Ptr_I [where a = a])
      show "buffer_m (data_m ?v') = Ptr a 0" using Ptr p1(1) by simp
      show "0 < capacity_m (data_m ?v')" using p1(2) by simp
      show "block_len w' a = Some (capacity_m (data_m ?v'))"
        using p1(3) same_shape_block_len [OF sh] by simp
      show "size_m ?v' \<le> capacity_m (data_m ?v')" using fit by simp
      show "capacity_m (data_m ?v') * sizeof_T T < 2 ^ 64"
        using wf_size(2) [OF okv] by simp
      show "load w' (Ptr a k) \<noteq> None" if "k < size_m ?v'" for k
        using that wf_live [OF okr, of k] by (simp add: l1)
    qed
    have el: "elems ?v' w' = elems rhs w"
      by (rule nth_equalityI) (simp_all add: nth_elems [of _ ?v'] Ptr p1(1) l1)
    have fr: "vector_ok T rhs w' \<and> elems rhs w' = elems rhs w"
    proof -
      have b: "block_len w' b = block_len w b" if "buffer_m (data_m rhs) = Ptr b i" for b i
        by (rule same_shape_block_len [OF sh])
      have l: "load w' (Ptr b k) = load w (Ptr b k)"
        if "buffer_m (data_m rhs) = Ptr b i" for b i k
        using separate_Ptr [OF sep Ptr that] by (simp add: l1)
      have "vector_ok T rhs w'"
      proof (rule wf_frame(1) [OF okr])
        fix b i assume "buffer_m (data_m rhs) = Ptr b i"
        then show "block_len w' b = block_len w b" by (rule b)
      next
        fix b i k assume "buffer_m (data_m rhs) = Ptr b i"
        then show "load w' (Ptr b k) = load w (Ptr b k)" by (rule l)
      qed
      moreover have "elems rhs w' = elems rhs w"
      proof (rule wf_frame(2) [OF okr])
        fix b i assume "buffer_m (data_m rhs) = Ptr b i"
        then show "block_len w' b = block_len w b" by (rule b)
      next
        fix b i k assume "buffer_m (data_m rhs) = Ptr b i"
        then show "load w' (Ptr b k) = load w (Ptr b k)" by (rule l)
      qed
      ultimately show ?thesis by blast
    qed
    have ex: "load w' (iter v k) = None" if "size_m rhs \<le> k" and "k < size_m v"
      using that by (simp add: it l1)
    from sh ok' el fr ex show ?thesis by blast
  qed
  then show "same_shape w w'"
    and "elems (v\<lparr>size_m := size_m rhs\<rparr>) w' = elems rhs w"
    and "vector_ok T (v\<lparr>size_m := size_m rhs\<rparr>) w'"
    and "vector_ok T rhs w'" and "elems rhs w' = elems rhs w"
    and "size_m rhs \<le> k \<Longrightarrow> k < size_m v \<Longrightarrow> load w' (iter v k) = None"
    by blast+
qed

lemma copy_assign_inplace_quiet:
  assumes f: "faults w = []" and sv: "size_m v \<le> capacity_m (data_m v)"
    and sr: "size_m rhs \<le> capacity_m (data_m rhs)"
    and fit: "size_m rhs \<le> capacity_m (data_m v)"
  shows "\<exists>w'. copy_assign_inplace v rhs w = (Inr (), w')"
proof (cases "size_m rhs < size_m v")
  case True
  have "0 + size_m rhs \<le> size_m rhs" "0 + size_m rhs \<le> capacity_m (data_m v)"
    using fit by simp_all
  from copy_assign_loop_quiet [OF f this(1) sr this(2)] obtain w1 where
    "copy_assign_loop v rhs 0 (size_m rhs) w = (Inr (), w1)" by blast
  then show ?thesis by (simp add: copy_assign_inplace_shrink [OF True])
next
  case False
  then have le: "size_m v \<le> size_m rhs" by simp
  have "0 + size_m v \<le> size_m rhs" "0 + size_m v \<le> capacity_m (data_m v)"
    using le sv by simp_all
  from copy_assign_loop_quiet [OF f this(1) sr this(2)] obtain w1 where
    l: "copy_assign_loop v rhs 0 (size_m v) w = (Inr (), w1)" and f1: "faults w1 = []"
    by blast
  from uninitialized_copy_n_quiet [OF f1,
      of "ptr_add (buffer_m (data_m rhs)) (int (size_m v))" "size_m rhs - size_m v"
         "ptr_add (buffer_m (data_m v)) (int (size_m v))"]
  obtain w2 where
    "uninitialized_copy_n (ptr_add (buffer_m (data_m rhs)) (int (size_m v)))
       (size_m rhs - size_m v) (ptr_add (buffer_m (data_m v)) (int (size_m v))) w1
     = (Inr (), w2)" by blast
  with l show ?thesis by (simp add: copy_assign_inplace_grow [OF le])
qed

lemma Vector_copy_assign_inplace_eq:
  assumes "this \<noteq> rhs" and "size_m (os ! rhs) \<le> Capacity (os ! this)"
  shows "Vector_copy_assign T this rhs os w =
     (case copy_assign_inplace (os ! this) (os ! rhs) w of
        (Inl e, w1) \<Rightarrow> (Inl e, os, w1)
      | (Inr u, w1) \<Rightarrow>
          (Inr (), os[this := (os ! this)\<lparr>size_m := size_m (os ! rhs)\<rparr>], w1))"
  using assms
  by (simp add: Vector_copy_assign_def Capacity_def RawMemory_Capacity_def
      cong: sum.case_cong prod.case_cong)

text \<open>
  C6. Two distinct, well-formed vector objects with storage in different blocks, the
  source's size at most the destination's capacity. A copy assignment that returns
  leaves the destination with its old storage, so with its old capacity, and no block
  is acquired; its size is the source's size and its elements are the source's elements;
  the slots of the destination from the source's size up to its old size hold no object
  any more; the source is unchanged. When the assignment ends with an exception, no
  member of either object has changed. When nothing throws the assignment returns.
\<close>

theorem copy_assign_in_place:
  assumes "this \<noteq> rhs" and "this < length os" and "rhs < length os"
    and "vector_ok T (os ! this) w" and "vector_ok T (os ! rhs) w"
    and "separate (os ! this) (os ! rhs)"
    and "size_m (os ! rhs) \<le> Capacity (os ! this)"
  shows "(\<forall>u os' w'. Vector_copy_assign T this rhs os w = (Inr u, os', w') \<longrightarrow>
            data_m (os' ! this) = data_m (os ! this)
            \<and> Capacity (os' ! this) = Capacity (os ! this)
            \<and> length (heap w') = length (heap w)
            \<and> size_m (os' ! this) = size_m (os ! rhs)
            \<and> elems (os' ! this) w' = elems (os ! rhs) w
            \<and> (\<forall>k. size_m (os ! rhs) \<le> k \<and> k < size_m (os ! this) \<longrightarrow>
                  load w' (iter (os ! this) k) = None)
            \<and> os' ! rhs = os ! rhs \<and> elems (os' ! rhs) w' = elems (os ! rhs) w
            \<and> vector_ok T (os' ! this) w' \<and> vector_ok T (os' ! rhs) w')
    \<and> (\<forall>e os' w'. Vector_copy_assign T this rhs os w = (Inl e, os', w') \<longrightarrow> os' = os)
    \<and> (faults w = [] \<longrightarrow> (\<exists>os' w'. Vector_copy_assign T this rhs os w = (Inr (), os', w')))"
proof -
  let ?v = "os ! this" and ?r = "os ! rhs"
  let ?os' = "os[this := ?v\<lparr>size_m := size_m ?r\<rparr>]"
  note eq = Vector_copy_assign_inplace_eq [OF assms(1,7), of T w]
  have fit: "size_m ?r \<le> capacity_m (data_m ?v)"
    using assms(7) by (simp add: Capacity_def RawMemory_Capacity_def)
  have split: "(\<exists>e w1. copy_assign_inplace ?v ?r w = (Inl e, w1)
        \<and> Vector_copy_assign T this rhs os w = (Inl e, os, w1))
    \<or> (\<exists>w1. copy_assign_inplace ?v ?r w = (Inr (), w1)
        \<and> Vector_copy_assign T this rhs os w = (Inr (), ?os', w1))"
  proof (cases "copy_assign_inplace ?v ?r w")
    case (Pair rr w1)
    show ?thesis
    proof (cases rr)
      case (Inl e)
      with Pair show ?thesis by (simp add: eq)
    next
      case (Inr u)
      with Pair show ?thesis by (simp add: eq)
    qed
  qed
  have a: "data_m (os' ! this) = data_m ?v
      \<and> Capacity (os' ! this) = Capacity ?v
      \<and> length (heap w') = length (heap w)
      \<and> size_m (os' ! this) = size_m ?r
      \<and> elems (os' ! this) w' = elems ?r w
      \<and> (\<forall>k. size_m ?r \<le> k \<and> k < size_m ?v \<longrightarrow> load w' (iter ?v k) = None)
      \<and> os' ! rhs = ?r \<and> elems (os' ! rhs) w' = elems ?r w
      \<and> vector_ok T (os' ! this) w' \<and> vector_ok T (os' ! rhs) w'"
    if r: "Vector_copy_assign T this rhs os w = (Inr u, os', w')" for u os' w'
  proof -
    from split r have c: "copy_assign_inplace ?v ?r w = (Inr (), w')" and os': "os' = ?os'"
      by auto
    note c1 = copy_assign_inplace_Inr [OF assms(4,5,6) fit c]
    have t: "os' ! this = ?v\<lparr>size_m := size_m ?r\<rparr>" using assms(2) by (simp add: os')
    have o: "os' ! rhs = ?r" using assms(1) by (simp add: os')
    have "length (heap w') = length (heap w)" using c1(1) by (rule same_shape_length)
    moreover have "\<forall>k. size_m ?r \<le> k \<and> k < size_m ?v \<longrightarrow> load w' (iter ?v k) = None"
      using c1(6) by blast
    ultimately show ?thesis
      using c1(2,3,4,5) by (simp add: t o Capacity_def RawMemory_Capacity_def)
  qed
  have b: "os' = os" if "Vector_copy_assign T this rhs os w = (Inl e, os', w')" for e os' w'
    using split that by auto
  have q: "\<exists>os' w'. Vector_copy_assign T this rhs os w = (Inr (), os', w')"
    if f: "faults w = []"
  proof -
    from copy_assign_inplace_quiet [OF f wf_size(1) [OF assms(4)] wf_size(1) [OF assms(5)] fit]
    obtain w1 where "copy_assign_inplace ?v ?r w = (Inr (), w1)" by blast
    then show ?thesis by (simp add: eq)
  qed
  from a b q show ?thesis by blast
qed

lemma copy_assign_example:
  "Vector_copy_assign T_copyable 0 1 [v123, v78] (w123_78 []) =
     (Inr (), [\<lparr>data_m = \<lparr>buffer_m = Ptr 0 0, capacity_m = 4\<rparr>, size_m = 2\<rparr>, v78],
      \<lparr>heap = [Some [Some 7, Some 8, None, None], Some [Some 7, Some 8]], faults = []\<rparr>)"
  "Vector_copy_assign T_copyable 0 1
     [\<lparr>data_m = \<lparr>buffer_m = Ptr 0 0, capacity_m = 4\<rparr>, size_m = 1\<rparr>, v78]
     \<lparr>heap = [Some [Some 1, None, None, None], Some [Some 7, Some 8]], faults = []\<rparr> =
     (Inr (), [\<lparr>data_m = \<lparr>buffer_m = Ptr 0 0, capacity_m = 4\<rparr>, size_m = 2\<rparr>, v78],
      \<lparr>heap = [Some [Some 7, Some 8, None, None], Some [Some 7, Some 8]], faults = []\<rparr>)"
  by (simp_all add: run_defs T_copyable_def v123_def v78_def w123_78_def)

theorem copy_assign_in_place_witness:
  "(0 :: nat) \<noteq> 1 \<and> 0 < length [v123, v78] \<and> 1 < length [v123, v78]
    \<and> vector_ok T_copyable ([v123, v78] ! 0) (w123_78 [])
    \<and> vector_ok T_copyable ([v123, v78] ! 1) (w123_78 [])
    \<and> separate ([v123, v78] ! 0) ([v123, v78] ! 1)
    \<and> size_m ([v123, v78] ! 1) \<le> Capacity ([v123, v78] ! 0)
    \<and> elems v123 (w123_78 []) = [Some 1, Some 2, Some 3]
    \<and> elems v78 (w123_78 []) = [Some 7, Some 8]
    \<and> (\<exists>os' w'. Vector_copy_assign T_copyable 0 1 [v123, v78] (w123_78 []) = (Inr (), os', w')
          \<and> Capacity (os' ! 0) = 4 \<and> size_m (os' ! 0) = 2
          \<and> elems (os' ! 0) w' = [Some 7, Some 8]
          \<and> load w' (iter v123 2) = None
          \<and> length (heap w') = 2)"
proof -
  let ?os = "[v123, v78]"
  let ?os' = "[\<lparr>data_m = \<lparr>buffer_m = Ptr 0 0, capacity_m = 4\<rparr>, size_m = 2\<rparr>, v78]"
  let ?w' = "\<lparr>heap = [Some [Some 7, Some 8, None, None], Some [Some 7, Some 8]], faults = []\<rparr>
             :: int world"
  have h: "(0 :: nat) \<noteq> 1" "0 < length ?os" "1 < length ?os"
    "vector_ok T_copyable (?os ! 0) (w123_78 [])"
    "vector_ok T_copyable (?os ! 1) (w123_78 [])"
    "separate (?os ! 0) (?os ! 1)"
    "size_m (?os ! 1) \<le> Capacity (?os ! 0)"
    by (simp_all add: run_defs T_copyable_def v123_def v78_def w123_78_def separate_def)
  have e: "elems v123 (w123_78 []) = [Some 1, Some 2, Some 3]"
    "elems v78 (w123_78 []) = [Some 7, Some 8]"
    by (simp_all add: run_defs v123_def v78_def w123_78_def)
  have n: "?os ! 0 = v123" "?os ! 1 = v78" "size_m v78 = 2" "size_m v123 = 3"
    "Capacity v123 = 4" "length (heap (w123_78 [])) = 2"
    by (simp_all add: v123_def v78_def w123_78_def Capacity_def RawMemory_Capacity_def)
  from copy_assign_in_place [OF h] copy_assign_example(1)
  have a: "Capacity (?os' ! 0) = Capacity (?os ! 0)
      \<and> length (heap ?w') = length (heap (w123_78 []))
      \<and> size_m (?os' ! 0) = size_m (?os ! 1)
      \<and> elems (?os' ! 0) ?w' = elems (?os ! 1) (w123_78 [])
      \<and> (\<forall>k. size_m (?os ! 1) \<le> k \<and> k < size_m (?os ! 0) \<longrightarrow>
            load ?w' (iter (?os ! 0) k) = None)"
    by blast
  then have a1: "Capacity (?os' ! 0) = 4" "length (heap ?w') = 2" "size_m (?os' ! 0) = 2"
    "elems (?os' ! 0) ?w' = [Some 7, Some 8]"
    unfolding n e by blast+
  from a have "size_m (?os ! 1) \<le> 2 \<and> 2 < size_m (?os ! 0) \<longrightarrow>
      load ?w' (iter (?os ! 0) 2) = None"
    by blast
  then have a2: "load ?w' (iter v123 2) = None" unfolding n by simp
  from h e copy_assign_example(1) a1 a2 show ?thesis by simp
qed

end
